theory Spec2Isabelle
  imports Main "HOL-Library.AList"
begin

section \<open>Work queue (queue-manager.js)\<close>

text \<open>
  The persisted documents are JSON files that every operation loads, changes and saves.
  The model threads one state record holding the contents of the documents. File input
  and output failures of the documents themselves are not modelled. Timestamps are
  natural numbers (milliseconds); an ISO date string orders as its instant does.
  Console output is left out.
\<close>

record file_ref =
  path :: string
  size_bytes :: nat
  hash :: "string option"
  source :: string

text \<open>The only field of the metadata argument that the queue reads is \<open>source\<close>.\<close>

type_synonym metadata = "string option"

record work_item =
  id_w :: string
  type_w :: string
  priority :: int
  created_at :: nat
  file_w :: file_ref
  required_agents :: "string list"
  context_w :: metadata

text \<open>What the file system answers for a path: nothing, or the size and the content hash
  (\<open>calculateHash\<close> gives null when the file cannot be read).\<close>

type_synonym file_system = "string \<Rightarrow> (nat \<times> string option) option"

fun is_prefix :: "string \<Rightarrow> string \<Rightarrow> bool" where
  "is_prefix [] ys = True"
| "is_prefix (x # xs) [] = False"
| "is_prefix (x # xs) (y # ys) = (x = y \<and> is_prefix xs ys)"

text \<open>\<open>String.prototype.includes\<close>: the argument occurs as a contiguous substring.\<close>

fun includes_s :: "string \<Rightarrow> string \<Rightarrow> bool" where
  "includes_s [] sub = (sub = [])"
| "includes_s (c # cs) sub = (is_prefix sub (c # cs) \<or> includes_s cs sub)"

definition detectType :: "string \<Rightarrow> metadata \<Rightarrow> string" where
  "detectType filePath md =
     (if md = Some ''git-commit'' then ''git-commit''
      else if md = Some ''web-clipper'' then ''web-clip''
      else if includes_s filePath ''00_Inbox'' then ''inbox-file''
      else ''unknown'')"

definition calculatePriority :: "string \<Rightarrow> metadata \<Rightarrow> int" where
  "calculatePriority filePath md =
     (if md = Some ''git-commit'' then 1
      else if md = Some ''web-clipper'' then 2
      else if includes_s filePath ''00_Inbox'' then 3
      else 4)"

definition determineAgents :: "string \<Rightarrow> metadata \<Rightarrow> string list" where
  "determineAgents filePath md =
     (let t = detectType filePath md in
      if t = ''git-commit'' then
        [''normalization'', ''keyword-extraction'', ''linking'', ''tagging'', ''filing'']
      else if t = ''web-clip'' then
        [''normalization'', ''keyword-extraction'', ''linking'', ''filing'']
      else if t = ''inbox-file'' then
        [''normalization'', ''keyword-extraction'', ''linking'', ''filing'']
      else [''normalization'', ''filing''])"

text \<open>Decimal rendering of a number, for the identifier \<open>wq-<Date.now()>\<close>.\<close>

definition digit_char :: "nat \<Rightarrow> char" where
  "digit_char d = char_of (48 + d)"

function dec :: "nat \<Rightarrow> string" where
  "dec n = (if n < 10 then [digit_char n] else dec (n div 10) @ [digit_char (n mod 10)])"
  by pat_completeness auto
termination
  by (relation "measure (\<lambda>n. n)") auto

declare dec.simps [simp del]

definition wq_id :: "nat \<Rightarrow> string" where
  "wq_id now = ''wq-'' @ dec now"

text \<open>\<open>metadata.source || 'unknown'\<close>: an absent or empty source gives \<open>unknown\<close>.\<close>

definition source_or_unknown :: "metadata \<Rightarrow> string" where
  "source_or_unknown md =
     (case md of None \<Rightarrow> ''unknown'' | Some src \<Rightarrow> if src = [] then ''unknown'' else src)"

section \<open>Processing manifest (processing-manifest.js)\<close>

datatype status = Pending | InProgress | Completed | Failed | Skipped

text \<open>An entry of \<open>agent_pipeline\<close>. The payload passed to \<open>updateAgent\<close> is kept as
  an optional string in the field that the status selects. The per-entry timestamps and
  durations are left out.\<close>

record agent_entry =
  name :: string
  status :: status
  output_a :: "string option"
  error_a :: "string option"
  reason :: "string option"

text \<open>A processing record. \<open>ProcessingManifest.add\<close> writes the counter under the key
  \<open>retries\<close>; the recovery processor reads the key \<open>retry_count\<close>, which \<open>add\<close> never
  writes, so that field is optional.\<close>

record processing_record =
  work_id :: string
  file_path :: string
  started_at :: nat
  agent_pipeline :: "agent_entry list"
  errors :: "(string \<times> string option) list"
  retries :: nat
  retry_count :: "nat option"

section \<open>Completion log (completion-log.js)\<close>

record completion_record =
  work_id_c :: string
  file_path_c :: string
  final_path :: string
  started_at_c :: nat
  agents_executed :: "(string \<times> status) list"
  errors_c :: "(string \<times> string option) list"
  retries_c :: nat

section \<open>The state of the system\<close>

text \<open>
  The four documents, and two logs of what the run did to its surroundings: the agent
  invocations (work id and agent name, in order) and the delays waited for.
\<close>

text \<open>The objects \<open>retries\<close> and \<open>lastRetry\<close> of the recovery state are plain JavaScript
  objects, read and written as \<open>obj[workId]\<close>; the lists below hold their own properties. A
  value of \<open>retries\<close> is a number or something that is not one: a member inherited from
  \<open>Object.prototype\<close>, or the string that \<open>+ 1\<close> makes of such a member. Every value of the
  second kind is truthy, is again no number after \<open>+ 1\<close>, and converts to \<open>NaN\<close> in a
  comparison and in arithmetic.\<close>

datatype retry_value = Number nat | NonNumeric

record sys_state =
  queue :: "work_item list"
  last_updated :: "nat option"
  current_processing :: "processing_record list"
  completed :: "completion_record list"
  retries_r :: "(string \<times> retry_value) list"
  lastRetry :: "(string \<times> nat) list"
  permanentFailures :: "string list"
  invoked :: "(string \<times> string) list"
  delays :: "nat list"

definition empty_state :: sys_state where
  "empty_state = \<lparr>queue = [], last_updated = None, current_processing = [], completed = [],
     retries_r = [], lastRetry = [], permanentFailures = [], invoked = [], delays = []\<rparr>"

datatype error =
    WorkItemNotFound string
  | ProcessingItemNotFound string
  | AgentNotFound string string
  | ExecutionError
  | AgentFailed string

subsection \<open>Queue operations\<close>

text \<open>\<open>addToQueue\<close> returns the new identifier, or null when the path is already queued
  and also when the file does not exist.\<close>

definition addToQueue ::
  "nat \<Rightarrow> file_system \<Rightarrow> string \<Rightarrow> metadata \<Rightarrow> sys_state \<Rightarrow> string option \<times> sys_state" where
  "addToQueue now fs filePath md s =
     (if list_ex (\<lambda>item. path (file_w item) = filePath) (queue s) then (None, s)
      else case fs filePath of
        None \<Rightarrow> (None, s)
      | Some (sz, h) \<Rightarrow>
          (let item = \<lparr>id_w = wq_id now,
                       type_w = detectType filePath md,
                       priority = calculatePriority filePath md,
                       created_at = now,
                       file_w = \<lparr>path = filePath, size_bytes = sz,
                               hash = map_option (\<lambda>x. ''sha256:'' @ x) h,
                               source = source_or_unknown md\<rparr>,
                       required_agents = determineAgents filePath md,
                       context_w = md\<rparr>
           in (Some (id_w item), s\<lparr>queue := queue s @ [item], last_updated := Some now\<rparr>)))"

text \<open>\<open>getNext\<close> sorts the loaded copy by priority (\<open>Array.prototype.sort\<close> is stable)
  and returns its first element; nothing is saved.\<close>

definition getNext :: "sys_state \<Rightarrow> work_item option" where
  "getNext s = (if queue s = [] then None else Some (hd (sort_key priority (queue s))))"

text \<open>\<open>findIndex\<close> gives -1 when no element satisfies the predicate.\<close>

fun findIndex :: "('a \<Rightarrow> bool) \<Rightarrow> 'a list \<Rightarrow> int" where
  "findIndex P [] = -1"
| "findIndex P (x # xs) =
     (if P x then 0 else (let i = findIndex P xs in if i < 0 then -1 else i + 1))"

text \<open>\<open>splice(index, 1)\<close> at the index that \<open>findIndex\<close> found.\<close>

fun remove_first :: "('a \<Rightarrow> bool) \<Rightarrow> 'a list \<Rightarrow> 'a list" where
  "remove_first P [] = []"
| "remove_first P (x # xs) = (if P x then xs else x # remove_first P xs)"

definition startProcessing ::
  "nat \<Rightarrow> string \<Rightarrow> sys_state \<Rightarrow> (error + work_item) \<times> sys_state" where
  "startProcessing now workItemId s =
     (case find (\<lambda>item. id_w item = workItemId) (queue s) of
        None \<Rightarrow> (Inl (WorkItemNotFound workItemId), s)
      | Some item \<Rightarrow>
          (Inr item, s\<lparr>queue := remove_first (\<lambda>item. id_w item = workItemId) (queue s),
                       last_updated := Some now\<rparr>))"

definition remove_q :: "nat \<Rightarrow> string \<Rightarrow> sys_state \<Rightarrow> bool \<times> sys_state" where
  "remove_q now workItemId s =
     (if findIndex (\<lambda>item. id_w item = workItemId) (queue s) = -1 then (False, s)
      else (True, s\<lparr>queue := remove_first (\<lambda>item. id_w item = workItemId) (queue s),
                     last_updated := Some now\<rparr>))"

subsection \<open>Manifest operations\<close>

fun update_first :: "('a \<Rightarrow> bool) \<Rightarrow> ('a \<Rightarrow> 'a) \<Rightarrow> 'a list \<Rightarrow> 'a list" where
  "update_first P f [] = []"
| "update_first P f (x # xs) = (if P x then f x # xs else x # update_first P f xs)"

definition manifest_add ::
  "nat \<Rightarrow> string \<Rightarrow> string \<Rightarrow> string list \<Rightarrow> sys_state \<Rightarrow> processing_record \<times> sys_state" where
  "manifest_add now wid fpath agents s =
     (let processing = \<lparr>work_id = wid, file_path = fpath, started_at = now,
            agent_pipeline = map (\<lambda>n. \<lparr>name = n, status = Pending, output_a = None,
                                        error_a = None, reason = None\<rparr>) agents,
            errors = [], retries = 0, retry_count = None\<rparr>
      in (processing, s\<lparr>current_processing := current_processing s @ [processing]\<rparr>))"

text \<open>What \<open>updateAgent\<close> writes into the entry it found.\<close>

definition set_agent :: "status \<Rightarrow> string option \<Rightarrow> agent_entry \<Rightarrow> agent_entry" where
  "set_agent st out a =
     (case st of
        InProgress \<Rightarrow> a\<lparr>status := st\<rparr>
      | Completed \<Rightarrow> a\<lparr>status := st, output_a := out\<rparr>
      | Failed \<Rightarrow> a\<lparr>status := st, error_a := out\<rparr>
      | Skipped \<Rightarrow> a\<lparr>status := st, reason := out\<rparr>
      | Pending \<Rightarrow> a\<lparr>status := st\<rparr>)"

definition updateAgent ::
  "string \<Rightarrow> string \<Rightarrow> status \<Rightarrow> string option \<Rightarrow> sys_state \<Rightarrow> error option \<times> sys_state" where
  "updateAgent workId agentName st out s =
     (case find (\<lambda>p. work_id p = workId) (current_processing s) of
        None \<Rightarrow> (Some (ProcessingItemNotFound workId), s)
      | Some processing \<Rightarrow>
          (case find (\<lambda>a. name a = agentName) (agent_pipeline processing) of
             None \<Rightarrow> (Some (AgentNotFound agentName workId), s)
           | Some agent \<Rightarrow>
               (let processing' = processing
                      \<lparr>agent_pipeline := update_first (\<lambda>a. name a = agentName)
                                           (set_agent st out) (agent_pipeline processing),
                       errors := (if st = Failed then errors processing @ [(agentName, out)]
                                  else errors processing)\<rparr>
                in (None, s\<lparr>current_processing :=
                      update_first (\<lambda>p. work_id p = workId) (\<lambda>_. processing')
                        (current_processing s)\<rparr>))))"

definition incrementRetry :: "string \<Rightarrow> sys_state \<Rightarrow> error option \<times> sys_state" where
  "incrementRetry workId s =
     (case find (\<lambda>p. work_id p = workId) (current_processing s) of
        None \<Rightarrow> (Some (ProcessingItemNotFound workId), s)
      | Some processing \<Rightarrow>
          (None, s\<lparr>current_processing :=
             update_first (\<lambda>p. work_id p = workId) (\<lambda>p. p\<lparr>retries := retries p + 1\<rparr>)
               (current_processing s)\<rparr>))"

definition manifest_complete ::
  "string \<Rightarrow> sys_state \<Rightarrow> (error + processing_record) \<times> sys_state" where
  "manifest_complete workId s =
     (case find (\<lambda>p. work_id p = workId) (current_processing s) of
        None \<Rightarrow> (Inl (ProcessingItemNotFound workId), s)
      | Some processing \<Rightarrow>
          (Inr processing,
           s\<lparr>current_processing :=
               remove_first (\<lambda>p. work_id p = workId) (current_processing s)\<rparr>))"

definition manifest_remove :: "string \<Rightarrow> sys_state \<Rightarrow> bool \<times> sys_state" where
  "manifest_remove workId s =
     (if findIndex (\<lambda>p. work_id p = workId) (current_processing s) = -1 then (False, s)
      else (True, s\<lparr>current_processing :=
                      remove_first (\<lambda>p. work_id p = workId) (current_processing s)\<rparr>))"

definition completionLog_add ::
  "processing_record \<Rightarrow> string \<Rightarrow> sys_state \<Rightarrow> completion_record \<times> sys_state" where
  "completionLog_add processingRecord fpath s =
     (let completedRecord = \<lparr>work_id_c = work_id processingRecord,
            file_path_c = file_path processingRecord,
            final_path = (if fpath = [] then file_path processingRecord else fpath),
            started_at_c = started_at processingRecord,
            agents_executed = map (\<lambda>a. (name a, status a)) (agent_pipeline processingRecord),
            errors_c = errors processingRecord,
            retries_c = retries processingRecord\<rparr>
      in (completedRecord, s\<lparr>completed := completed s @ [completedRecord]\<rparr>))"

section \<open>Pipeline executor (main-processor.js)\<close>

text \<open>
  The agents are outside the model. An \<open>agent_world\<close> says, for the number of agent
  invocations made so far and the agent's name, whether the next attempt (loading the
  agent module, loading the document, executing) ends with status completed; every
  other end of the attempt throws inside the \<open>try\<close> block.
\<close>

type_synonym agent_world = "nat \<Rightarrow> string \<Rightarrow> bool"

definition execute_agent ::
  "agent_world \<Rightarrow> string \<Rightarrow> string \<Rightarrow> sys_state \<Rightarrow> bool \<times> sys_state" where
  "execute_agent env wid an s =
     (env (length (invoked s)) an, s\<lparr>invoked := invoked s @ [(wid, an)]\<rparr>)"

definition wait :: "nat \<Rightarrow> sys_state \<Rightarrow> sys_state" where
  "wait d s = s\<lparr>delays := delays s @ [d]\<rparr>"

text \<open>The \<open>while (retries <= this.maxRetries && !success)\<close> loop of one stage, entered with
  \<open>success = false\<close> and the given value of \<open>retries\<close>.\<close>

function attempts ::
  "agent_world \<Rightarrow> nat \<Rightarrow> string \<Rightarrow> string \<Rightarrow> nat \<Rightarrow> sys_state \<Rightarrow> error option \<times> sys_state" where
  "attempts env mr wid an r s =
     (if r \<le> mr then
        (case execute_agent env wid an s of
           (ok, s1) \<Rightarrow>
             (case (if ok then updateAgent wid an Completed (Some ''completed'') s1
                    else (Some ExecutionError, s1)) of
                (None, s2) \<Rightarrow> (None, s2)
              | (Some e, s2) \<Rightarrow>
                  (if r + 1 \<le> mr then
                     (case incrementRetry wid s2 of
                        (Some e', s3) \<Rightarrow> (Some e', s3)
                      | (None, s3) \<Rightarrow>
                          attempts env mr wid an (r + 1) (wait (1000 * (r + 1)) s3))
                   else
                     (case updateAgent wid an Failed (Some ''Agent execution failed'') s2 of
                        (Some e', s3) \<Rightarrow> (Some e', s3)
                      | (None, s3) \<Rightarrow> (Some (AgentFailed an), s3)))))
      else (None, s))"
  by pat_completeness auto
termination
  by (relation "measure (\<lambda>(env, mr, wid, an, r, s). mr + 1 - r)") auto

declare attempts.simps [simp del]

definition run_stage ::
  "agent_world \<Rightarrow> nat \<Rightarrow> string \<Rightarrow> string \<Rightarrow> sys_state \<Rightarrow> error option \<times> sys_state" where
  "run_stage env mr wid an s =
     (case updateAgent wid an InProgress None s of
        (Some e, s1) \<Rightarrow> (Some e, s1)
      | (None, s1) \<Rightarrow> attempts env mr wid an 0 s1)"

fun executeAgentPipeline ::
  "agent_world \<Rightarrow> nat \<Rightarrow> string \<Rightarrow> string list \<Rightarrow> sys_state \<Rightarrow> error option \<times> sys_state" where
  "executeAgentPipeline env mr wid [] s = (None, s)"
| "executeAgentPipeline env mr wid (an # rest) s =
     (case run_stage env mr wid an s of
        (Some e, s1) \<Rightarrow> (Some e, s1)
      | (None, s1) \<Rightarrow> executeAgentPipeline env mr wid rest s1)"

text \<open>The constructor of \<open>MainProcessor\<close> sets \<open>this.maxRetries = 3\<close>.\<close>

definition maxRetries_mp :: nat where
  "maxRetries_mp = 3"

datatype process_result = Idle | ProcessCompleted string | ProcessFailed string error

text \<open>
  \<open>processNext\<close>. The flag \<open>final_ok\<close> says whether \<open>loadDocumentState\<close> of the original
  path succeeds after the pipeline (it throws when the file is no longer there); the
  business metadata of the final output is left out.
\<close>

definition processNext ::
  "agent_world \<Rightarrow> bool \<Rightarrow> nat \<Rightarrow> sys_state \<Rightarrow> (error + process_result) \<times> sys_state" where
  "processNext env final_ok now s =
     (case getNext s of
        None \<Rightarrow> (Inr Idle, s)
      | Some nextWork \<Rightarrow>
          (case startProcessing now (id_w nextWork) s of
             (Inl e, s1) \<Rightarrow> (Inl e, s1)
           | (Inr workItem, s1) \<Rightarrow>
               (let s2 = snd (manifest_add now (id_w workItem) (path (file_w workItem))
                                (required_agents workItem) s1)
                in case executeAgentPipeline env maxRetries_mp (id_w workItem)
                          (required_agents workItem) s2 of
                     (Some e, s3) \<Rightarrow>
                       (Inr (ProcessFailed (id_w workItem) e),
                        snd (manifest_remove (id_w workItem) s3))
                   | (None, s3) \<Rightarrow>
                       (if \<not> final_ok then
                          (Inr (ProcessFailed (id_w workItem) ExecutionError),
                           snd (manifest_remove (id_w workItem) s3))
                        else case manifest_complete (id_w workItem) s3 of
                          (Inl e, s4) \<Rightarrow>
                            (Inr (ProcessFailed (id_w workItem) e),
                             snd (manifest_remove (id_w workItem) s4))
                        | (Inr processingRecord, s4) \<Rightarrow>
                            (Inr (ProcessCompleted (id_w workItem)),
                             snd (completionLog_add processingRecord
                                    (path (file_w workItem)) s4))))))"

section \<open>Recovery processor (recovery-processor.js)\<close>

record options =
  maxRetries :: nat
  retryDelay :: nat
  exponentialBackoff :: bool
  cleanupOldFailures :: bool
  maxFailureAge :: nat

definition default_options :: options where
  "default_options = \<lparr>maxRetries = 3, retryDelay = 2000, exponentialBackoff = True,
     cleanupOldFailures = True, maxFailureAge = 86400000\<rparr>"

text \<open>\<open>item.retry_count >= maxRetries\<close> is false when the key is absent.\<close>

definition is_failed_task :: "options \<Rightarrow> processing_record \<Rightarrow> bool" where
  "is_failed_task opts item =
     (let hasFailedAgent = list_ex (\<lambda>a. status a = Failed) (agent_pipeline item);
          hasExceededRetries = (case retry_count item of None \<Rightarrow> False
                                | Some n \<Rightarrow> n \<ge> maxRetries opts)
      in hasFailedAgent \<or> hasExceededRetries)"

definition detectFailedTasks :: "options \<Rightarrow> nat \<Rightarrow> sys_state \<Rightarrow> processing_record list" where
  "detectFailedTasks opts now s =
     (let failedTasks = filter (is_failed_task opts) (current_processing s) in
      if cleanupOldFailures opts then
        filter (\<lambda>task. int now - int (started_at task) \<le> int (maxFailureAge opts)) failedTasks
      else failedTasks)"

record checkpoint_info =
  checkpoint :: string
  lastCompletedAgent :: "agent_entry option"
  resumeFromAgent :: "string option"
  resumeFromIndex :: "int option"

text \<open>\<open>x?.name || null\<close>: an empty name counts as none.\<close>

definition name_or_null :: "agent_entry option \<Rightarrow> string option" where
  "name_or_null x =
     (case x of None \<Rightarrow> None | Some a \<Rightarrow> if name a = [] then None else Some (name a))"

text \<open>Indexing an array: undefined outside the range.\<close>

definition at_index :: "'a list \<Rightarrow> int \<Rightarrow> 'a option" where
  "at_index xs i = (if 0 \<le> i \<and> i < int (length xs) then Some (xs ! nat i) else None)"

text \<open>The branch for no completed agent returns an object without \<open>resumeFromIndex\<close>.\<close>

definition findLastCheckpoint :: "processing_record \<Rightarrow> checkpoint_info" where
  "findLastCheckpoint task =
     (let completedAgents = filter (\<lambda>a. status a = Completed) (agent_pipeline task) in
      if completedAgents = [] then
        \<lparr>checkpoint = ''start'', lastCompletedAgent = None,
         resumeFromAgent = name_or_null (at_index (agent_pipeline task) 0),
         resumeFromIndex = None\<rparr>
      else
        (let lastCompleted = last completedAgents;
             lastCompletedIndex =
               findIndex (\<lambda>a. name a = name lastCompleted) (agent_pipeline task);
             resumeFrom = at_index (agent_pipeline task) (lastCompletedIndex + 1)
         in \<lparr>checkpoint = name lastCompleted, lastCompletedAgent = Some lastCompleted,
             resumeFromAgent = name_or_null resumeFrom,
             resumeFromIndex = Some (lastCompletedIndex + 1)\<rparr>))"

text \<open>\<open>Array.prototype.slice(start)\<close>: undefined counts as 0, a negative start counts
  from the end.\<close>

definition slice_from :: "int option \<Rightarrow> 'a list \<Rightarrow> 'a list" where
  "slice_from start xs =
     (case start of
        None \<Rightarrow> xs
      | Some k \<Rightarrow> if k < 0 then drop (nat (int (length xs) + k)) xs else drop (nat k) xs)"

text \<open>The names under which \<open>Object.prototype\<close> has a member (a function, or for
  \<open>__proto__\<close> the prototype object itself).\<close>

definition object_prototype_names :: "string list" where
  "object_prototype_names =
     [''constructor'', ''__defineGetter__'', ''__defineSetter__'', ''hasOwnProperty'',
      ''__lookupGetter__'', ''__lookupSetter__'', ''isPrototypeOf'', ''propertyIsEnumerable'',
      ''toString'', ''valueOf'', ''__proto__'', ''toLocaleString'']"

text \<open>\<open>retries[key]\<close>: the own property if there is one, otherwise the inherited member,
  otherwise \<open>undefined\<close> (\<open>None\<close>).\<close>

definition get_retries :: "(string \<times> retry_value) list \<Rightarrow> string \<Rightarrow> retry_value option" where
  "get_retries obj key =
     (case map_of obj key of
        Some v \<Rightarrow> Some v
      | None \<Rightarrow> if key \<in> set object_prototype_names then Some NonNumeric else None)"

text \<open>\<open>v || 0\<close>: \<open>undefined\<close> and the number 0 give 0, every other value is truthy and
  is returned.\<close>

definition or_zero :: "retry_value option \<Rightarrow> retry_value" where
  "or_zero v = (case v of None \<Rightarrow> Number 0 | Some x \<Rightarrow> x)"

text \<open>\<open>v + 1\<close>: addition on a number, string concatenation on anything else.\<close>

definition plus_one :: "retry_value \<Rightarrow> retry_value" where
  "plus_one v = (case v of Number n \<Rightarrow> Number (n + 1) | NonNumeric \<Rightarrow> NonNumeric)"

text \<open>\<open>v >= m\<close> for a number \<open>m\<close>: false whenever \<open>v\<close> converts to \<open>NaN\<close>.\<close>

definition js_ge :: "retry_value \<Rightarrow> nat \<Rightarrow> bool" where
  "js_ge v m = (case v of Number n \<Rightarrow> m \<le> n | NonNumeric \<Rightarrow> False)"

text \<open>\<open>obj[key] = v\<close> for a value that is a number or a string: the own property is set
  or created, except under the name \<open>__proto__\<close> when the object has no own property of
  that name, where the inherited setter ignores a value that is no object.\<close>

definition js_assign :: "string \<Rightarrow> 'a \<Rightarrow> (string \<times> 'a) list \<Rightarrow> (string \<times> 'a) list" where
  "js_assign key v obj =
     (if key = ''__proto__'' \<and> map_of obj key = None then obj else AList.update key v obj)"

definition getRetryCount :: "string \<Rightarrow> sys_state \<Rightarrow> retry_value" where
  "getRetryCount workId s = or_zero (get_retries (retries_r s) workId)"

text \<open>\<open>incrementRetryCount\<close> returns \<open>state.retries[workId]\<close> as read after the two
  assignments (\<open>undefined\<close> would be no number either).\<close>

definition incrementRetryCount ::
  "nat \<Rightarrow> string \<Rightarrow> sys_state \<Rightarrow> retry_value \<times> sys_state" where
  "incrementRetryCount now workId s =
     (let retries' = js_assign workId (plus_one (or_zero (get_retries (retries_r s) workId)))
                       (retries_r s);
          lastRetry' = js_assign workId now (lastRetry s)
      in (case get_retries retries' workId of None \<Rightarrow> NonNumeric | Some v \<Rightarrow> v,
          s\<lparr>retries_r := retries', lastRetry := lastRetry'\<rparr>))"

definition hasExceededRetryLimit :: "options \<Rightarrow> string \<Rightarrow> sys_state \<Rightarrow> bool" where
  "hasExceededRetryLimit opts workId s = js_ge (getRetryCount workId s) (maxRetries opts)"

definition markPermanentFailure :: "string \<Rightarrow> sys_state \<Rightarrow> sys_state" where
  "markPermanentFailure workId s =
     (let s1 = (if workId \<in> set (permanentFailures s) then s
                else s\<lparr>permanentFailures := permanentFailures s @ [workId]\<rparr>)
      in snd (manifest_remove workId s1))"

text \<open>The loop that resets the failed agents among the remaining ones to pending; it
  reads the statuses from the task object it was given.\<close>

fun reset_failed ::
  "string \<Rightarrow> processing_record \<Rightarrow> string list \<Rightarrow> sys_state \<Rightarrow> error option \<times> sys_state" where
  "reset_failed workId task [] s = (None, s)"
| "reset_failed workId task (agentName # rest) s =
     (case find (\<lambda>a. name a = agentName) (agent_pipeline task) of
        None \<Rightarrow> reset_failed workId task rest s
      | Some agent \<Rightarrow>
          (if status agent = Failed then
             (case updateAgent workId agentName Pending None s of
                (Some e, s1) \<Rightarrow> (Some e, s1)
              | (None, s1) \<Rightarrow> reset_failed workId task rest s1)
           else reset_failed workId task rest s))"

datatype retry_result =
    PermanentFailure "error option"
  | SkippedTask
  | Recovered
  | FailedAgain retry_value

text \<open>The delay handed to the timer. With a retry count that is no number the product
  is \<open>NaN\<close>, for which the timer of Node.js waits 1 ms.\<close>

definition retry_delay :: "options \<Rightarrow> retry_value \<Rightarrow> nat" where
  "retry_delay opts retryCount =
     (if exponentialBackoff opts then
        (case retryCount of
           Number n \<Rightarrow> retryDelay opts * 2 ^ (n - 1)
         | NonNumeric \<Rightarrow> 1)
      else retryDelay opts)"

text \<open>\<open>retryTask\<close>. An exception of the reset loop leaves the function (it is outside
  the \<open>try\<close> block). The statistics object of the processor is left out; the returned
  status says which counter was incremented.\<close>

definition retryTask ::
  "options \<Rightarrow> agent_world \<Rightarrow> nat \<Rightarrow> processing_record \<Rightarrow> sys_state
     \<Rightarrow> (error + retry_result) \<times> sys_state" where
  "retryTask opts env now task s =
     (let workId = work_id task in
      if hasExceededRetryLimit opts workId s then
        (Inr (PermanentFailure None), markPermanentFailure workId s)
      else
        (let cp = findLastCheckpoint task in
         case resumeFromAgent cp of
           None \<Rightarrow> (Inr SkippedTask, s)
         | Some _ \<Rightarrow>
             (case incrementRetryCount now workId s of
                (retryCount, s1) \<Rightarrow>
                  (let s2 = wait (retry_delay opts retryCount) s1;
                       remainingAgents =
                         map name (slice_from (resumeFromIndex cp) (agent_pipeline task))
                   in case reset_failed workId task remainingAgents s2 of
                        (Some e, s3) \<Rightarrow> (Inl e, s3)
                      | (None, s3) \<Rightarrow>
                          (case executeAgentPipeline env maxRetries_mp workId
                                  remainingAgents s3 of
                             (None, s4) \<Rightarrow> (Inr Recovered, s4)
                           | (Some e, s4) \<Rightarrow>
                               (if js_ge retryCount (maxRetries opts) then
                                  (Inr (PermanentFailure (Some e)),
                                   markPermanentFailure workId s4)
                                else (Inr (FailedAgain retryCount), s4)))))))"

text \<open>\<open>recoverAll\<close>: one pass over the tasks that the detection returned.\<close>

fun retry_each ::
  "options \<Rightarrow> agent_world \<Rightarrow> nat \<Rightarrow> processing_record list \<Rightarrow> sys_state
     \<Rightarrow> (error + retry_result list) \<times> sys_state" where
  "retry_each opts env now [] s = (Inr [], s)"
| "retry_each opts env now (task # tasks) s =
     (case retryTask opts env now task s of
        (Inl e, s1) \<Rightarrow> (Inl e, s1)
      | (Inr r, s1) \<Rightarrow>
          (case retry_each opts env now tasks s1 of
             (Inl e, s2) \<Rightarrow> (Inl e, s2)
           | (Inr rs, s2) \<Rightarrow> (Inr (r # rs), s2)))"

definition recoverAll ::
  "options \<Rightarrow> agent_world \<Rightarrow> nat \<Rightarrow> sys_state \<Rightarrow> (error + retry_result list) \<times> sys_state" where
  "recoverAll opts env now s = retry_each opts env now (detectFailedTasks opts now s) s"

text \<open>\<open>cleanup\<close>: the keys of \<open>retries\<close> that belong to no record of the manifest and to
  no permanent failure are deleted from both maps.\<close>

definition cleanup :: "sys_state \<Rightarrow> nat \<times> sys_state" where
  "cleanup s =
     (let activeWorkIds = map work_id (current_processing s);
          dead = filter (\<lambda>workId. workId \<notin> set activeWorkIds
                                   \<and> workId \<notin> set (permanentFailures s))
                   (map fst (retries_r s))
      in (length dead, s\<lparr>retries_r := fold AList.delete dead (retries_r s),
                          lastRetry := fold AList.delete dead (lastRetry s)\<rparr>))"

section \<open>Observations and example states\<close>

text \<open>The status that the manifest holds for a stage of a work item: that of the first
  record with the work id and of its first pipeline entry with the name, which are the
  ones every manifest operation addresses.\<close>

definition stage_status :: "string \<Rightarrow> string \<Rightarrow> sys_state \<Rightarrow> status option" where
  "stage_status workId agentName s =
     (case find (\<lambda>p. work_id p = workId) (current_processing s) of
        None \<Rightarrow> None
      | Some p \<Rightarrow> map_option status (find (\<lambda>a. name a = agentName) (agent_pipeline p)))"

definition mk_agent :: "string \<Rightarrow> status \<Rightarrow> agent_entry" where
  "mk_agent n st = \<lparr>name = n, status = st, output_a = None, error_a = None, reason = None\<rparr>"

definition mk_item :: "string \<Rightarrow> int \<Rightarrow> nat \<Rightarrow> string \<Rightarrow> work_item" where
  "mk_item i p t fp = \<lparr>id_w = i, type_w = ''unknown'', priority = p, created_at = t,
     file_w = \<lparr>path = fp, size_bytes = 0, hash = None, source = ''unknown''\<rparr>,
     required_agents = [''normalization'', ''filing''], context_w = None\<rparr>"

text \<open>A queue holding item B (priority 3) and, queued after it, item A (priority 1).\<close>

definition item_A :: work_item where
  "item_A = mk_item ''wq-2'' 1 2 ''a.md''"

definition item_B :: work_item where
  "item_B = mk_item ''wq-1'' 3 1 ''b.md''"

definition queue_BA :: sys_state where
  "queue_BA = empty_state\<lparr>queue := [item_B, item_A]\<rparr>"

text \<open>A manifest with one record whose first stage is completed.\<close>

definition done_task :: processing_record where
  "done_task = \<lparr>work_id = ''wq-1'', file_path = ''a.md'', started_at = 0,
     agent_pipeline = [mk_agent ''normalization'' Completed, mk_agent ''filing'' Pending],
     errors = [], retries = 0, retry_count = None\<rparr>"

definition done_state :: sys_state where
  "done_state = empty_state\<lparr>current_processing := [done_task]\<rparr>"

text \<open>A sequence of enqueue operations: each reads the clock and the file system and is
  given a path and the metadata.\<close>

type_synonym enqueue = "nat \<times> file_system \<times> string \<times> metadata"

fun enqueue_all :: "enqueue list \<Rightarrow> sys_state \<Rightarrow> sys_state" where
  "enqueue_all [] s = s"
| "enqueue_all ((now, fs, filePath, md) # ops) s =
     enqueue_all ops (snd (addToQueue now fs filePath md s))"

definition some_file :: file_system where
  "some_file = (\<lambda>_. Some (120, Some ''0a1b''))"

definition four_enqueues :: "enqueue list" where
  "four_enqueues =
     [(10, some_file, ''notes/x.md'', None),
      (11, some_file, ''00_Inbox/a.md'', Some ''web-clipper''),
      (11, some_file, ''00_Inbox/b.md'', Some ''web-clipper''),
      (15, some_file, ''00_Inbox/c.md'', None)]"

text \<open>Two enqueues of equal priority between which the clock was set back.\<close>

definition clock_set_back :: "enqueue list" where
  "clock_set_back =
     [(11, some_file, ''00_Inbox/a.md'', Some ''web-clipper''),
      (9, some_file, ''00_Inbox/b.md'', Some ''web-clipper'')]"

text \<open>The item that the second of the four enqueues creates; the first of the two
  enqueues above creates the same item.\<close>

definition first_clip :: work_item where
  "first_clip = \<lparr>id_w = ''wq-11'', type_w = ''web-clip'', priority = 2, created_at = 11,
     file_w = \<lparr>path = ''00_Inbox/a.md'', size_bytes = 120, hash = Some ''sha256:0a1b'',
               source = ''web-clipper''\<rparr>,
     required_agents = [''normalization'', ''keyword-extraction'', ''linking'', ''filing''],
     context_w = Some ''web-clipper''\<rparr>"

text \<open>The item that the third of the four enqueues creates, in the same millisecond.\<close>

definition second_clip :: work_item where
  "second_clip = \<lparr>id_w = ''wq-11'', type_w = ''web-clip'', priority = 2, created_at = 11,
     file_w = \<lparr>path = ''00_Inbox/b.md'', size_bytes = 120, hash = Some ''sha256:0a1b'',
               source = ''web-clipper''\<rparr>,
     required_agents = [''normalization'', ''keyword-extraction'', ''linking'', ''filing''],
     context_w = Some ''web-clipper''\<rparr>"

text \<open>What the manifest operations never change: the other documents, and for every
  record of the manifest its work id and the names of its stages.\<close>

definition manifest_shape :: "sys_state \<Rightarrow> (string \<times> string list) list" where
  "manifest_shape s = map (\<lambda>p. (work_id p, map name (agent_pipeline p))) (current_processing s)"

definition frame :: "sys_state \<Rightarrow> sys_state \<Rightarrow> bool" where
  "frame s s' \<longleftrightarrow>
     queue s' = queue s \<and> last_updated s' = last_updated s \<and> completed s' = completed s
     \<and> retries_r s' = retries_r s \<and> lastRetry s' = lastRetry s
     \<and> permanentFailures s' = permanentFailures s
     \<and> manifest_shape s' = manifest_shape s"

text \<open>The agent invocations between two states all belong to one work item and to a set
  of agent names.\<close>

definition trace_within :: "string \<Rightarrow> string set \<Rightarrow> sys_state \<Rightarrow> sys_state \<Rightarrow> bool" where
  "trace_within wid A s s' \<longleftrightarrow>
     (\<exists>new. invoked s' = invoked s @ new \<and> set new \<subseteq> {wid} \<times> A)"

text \<open>A manifest with one record of three pending stages, and a world in which the
  linking agent fails at every attempt while every other agent succeeds.\<close>

definition fresh_task :: processing_record where
  "fresh_task = \<lparr>work_id = ''wq-1'', file_path = ''a.md'', started_at = 0,
     agent_pipeline = [mk_agent ''normalization'' Pending, mk_agent ''linking'' Pending,
                       mk_agent ''filing'' Pending],
     errors = [], retries = 0, retry_count = None\<rparr>"

definition fresh_state :: sys_state where
  "fresh_state = empty_state\<lparr>current_processing := [fresh_task]\<rparr>"

definition linking_down :: agent_world where
  "linking_down = (\<lambda>n a. a \<noteq> ''linking'')"

text \<open>Records for the recovery processor: one with the stages completed, completed,
  failed, pending; one with no completed stage; one in which a stage name occurs twice.\<close>

definition failed_task :: processing_record where
  "failed_task = \<lparr>work_id = ''wq-1'', file_path = ''00_Inbox/a.md'', started_at = 0,
     agent_pipeline = [mk_agent ''normalization'' Completed,
                       mk_agent ''keyword-extraction'' Completed,
                       mk_agent ''linking'' Failed, mk_agent ''filing'' Pending],
     errors = [(''linking'', Some ''Agent execution failed'')], retries = 3,
     retry_count = None\<rparr>"

definition pending_task :: processing_record where
  "pending_task = \<lparr>work_id = ''wq-2'', file_path = ''b.md'', started_at = 0,
     agent_pipeline = [mk_agent ''normalization'' Pending, mk_agent ''filing'' Pending],
     errors = [], retries = 0, retry_count = None\<rparr>"

definition twice_task :: processing_record where
  "twice_task = \<lparr>work_id = ''wq-3'', file_path = ''c.md'', started_at = 0,
     agent_pipeline = [mk_agent ''normalization'' Completed, mk_agent ''linking'' Pending,
                       mk_agent ''normalization'' Completed, mk_agent ''filing'' Pending],
     errors = [], retries = 0, retry_count = None\<rparr>"

text \<open>The index at which \<open>retryTask\<close> slices the pipeline: \<open>slice(undefined)\<close> starts
  at 0.\<close>

definition resume_position :: "processing_record \<Rightarrow> nat" where
  "resume_position task =
     (case resumeFromIndex (findLastCheckpoint task) of None \<Rightarrow> 0 | Some k \<Rightarrow> nat k)"


text \<open>A world in which every agent succeeds; a state holding the failed record with a
  given recovery retry count (no entry yet when the count is 0); a state holding the record
  with the repeated name.\<close>

definition all_up :: agent_world where
  "all_up = (\<lambda>n a. True)"

definition retry_state :: "nat \<Rightarrow> sys_state" where
  "retry_state n = empty_state\<lparr>current_processing := [failed_task],
                               retries_r := (if n = 0 then [] else [(''wq-1'', Number n)])\<rparr>"

definition twice_state :: sys_state where
  "twice_state = empty_state\<lparr>current_processing := [twice_task]\<rparr>"

text \<open>A world in which every agent fails at every attempt.\<close>

definition all_down :: agent_world where
  "all_down = (\<lambda>n a. False)"

text \<open>A record as \<open>ProcessingManifest.add\<close> writes it, whose first stage has been set
  in progress and has been retried three times by the executor.\<close>

definition retried_state :: sys_state where
  "retried_state =
     snd (incrementRetry ''wq-1'' (snd (incrementRetry ''wq-1'' (snd (incrementRetry ''wq-1''
       (snd (updateAgent ''wq-1'' ''normalization'' InProgress None
         (snd (manifest_add 0 ''wq-1'' ''a.md'' [''normalization'', ''filing'']
                 empty_state)))))))))"

text \<open>For a retry of the failed record at a given retry count and delay: the state in
  which the pipeline starts, and the state in which it ends.\<close>

definition retry_start :: "nat \<Rightarrow> nat \<Rightarrow> sys_state" where
  "retry_start d n =
     snd (reset_failed (work_id failed_task) failed_task
            (map name (drop (resume_position failed_task) (agent_pipeline failed_task)))
            (wait d (snd (incrementRetryCount 50 (work_id failed_task) (retry_state n)))))"

definition retry_end :: "agent_world \<Rightarrow> nat \<Rightarrow> nat \<Rightarrow> sys_state" where
  "retry_end env d n =
     snd (executeAgentPipeline env maxRetries_mp (work_id failed_task)
            (map name (drop (resume_position failed_task) (agent_pipeline failed_task)))
            (retry_start d n))"

text \<open>The list \<open>remainingAgents\<close> that \<open>retryTask\<close> computes for a task.\<close>

definition remaining_agents :: "processing_record \<Rightarrow> string list" where
  "remaining_agents task =
     map name (slice_from (resumeFromIndex (findLastCheckpoint task)) (agent_pipeline task))"

text \<open>The failed record under a work id that is the name of a member of
  \<open>Object.prototype\<close>, in a state whose recovery state is the default one; the state in which
  the pipeline of its retry starts, and the one in which it ends when the linking agent
  is down.\<close>

definition inherited_task :: processing_record where
  "inherited_task = failed_task\<lparr>work_id := ''constructor''\<rparr>"

definition inherited_state :: sys_state where
  "inherited_state = empty_state\<lparr>current_processing := [inherited_task]\<rparr>"

definition inherited_start :: sys_state where
  "inherited_start =
     snd (reset_failed (work_id inherited_task) inherited_task (remaining_agents inherited_task)
            (wait 1 (snd (incrementRetryCount 50 (work_id inherited_task) inherited_state))))"

definition inherited_end :: sys_state where
  "inherited_end =
     snd (executeAgentPipeline linking_down maxRetries_mp (work_id inherited_task)
            (remaining_agents inherited_task) inherited_start)"

section \<open>Theorems\<close>

text \<open>
  C9. For every queue state that already contains an item with the given path,
  \<open>addToQueue\<close> of that path returns null and leaves the whole state as it was: the
  queue keeps its length and no record is added. The match is on the path alone; the file
  system (and with it the content hash of the file) has no influence.
\<close>

theorem addToQueue_already_queued:
  assumes "list_ex (\<lambda>item. path (file_w item) = filePath) (queue s)"
  shows "addToQueue now fs filePath md s = (None, s)"
  using assms by (simp add: addToQueue_def)

theorem addToQueue_already_queued_witness:
  "list_ex (\<lambda>item. path (file_w item) = ''a.md'') (queue queue_BA)
   \<and> addToQueue 7 (\<lambda>_. Some (99, Some ''ffff'')) ''a.md'' (Some ''git-commit'') queue_BA
       = (None, queue_BA)"
proof -
  have q: "list_ex (\<lambda>item. path (file_w item) = ''a.md'') (queue queue_BA)"
    by (simp add: queue_BA_def item_A_def item_B_def mk_item_def empty_state_def)
  from addToQueue_already_queued [OF q] q show ?thesis
    by simp
qed

subsection \<open>The manifest's \<open>updateAgent\<close>\<close>

lemma find_update_first:
  assumes "\<And>x. P x \<Longrightarrow> P (f x)"
  shows "find P (update_first P f xs) = map_option f (find P xs)"
  using assms by (induction xs) auto

lemma find_update_first_const:
  assumes "find P xs = Some x" and "P y"
  shows "find P (update_first P (\<lambda>_. y) xs) = Some y"
  using assms by (induction xs) (auto split: if_splits)

lemma name_set_agent [simp]: "name (set_agent st out a) = name a"
  by (cases st) (simp_all add: set_agent_def)

lemma status_set_agent [simp]: "status (set_agent st out a) = st"
  by (cases st) (simp_all add: set_agent_def)

lemma updateAgent_found:
  assumes "find (\<lambda>p. work_id p = workId) (current_processing s) = Some p"
    and "find (\<lambda>a. name a = agentName) (agent_pipeline p) = Some a"
  shows "fst (updateAgent workId agentName st out s) = None"
    and "stage_status workId agentName (snd (updateAgent workId agentName st out s)) = Some st"
proof -
  show "fst (updateAgent workId agentName st out s) = None"
    using assms by (simp add: updateAgent_def Let_def)
  have wp: "work_id p = workId"
    using assms(1) by (metis (mono_tags, lifting) find_Some_iff)
  show "stage_status workId agentName (snd (updateAgent workId agentName st out s)) = Some st"
    using assms wp
    by (simp add: updateAgent_def Let_def stage_status_def find_update_first_const
        find_update_first)
qed

lemma updateAgent_error_unchanged:
  "fst (updateAgent workId agentName st out s) \<noteq> None \<Longrightarrow>
   snd (updateAgent workId agentName st out s) = s"
  by (auto simp: updateAgent_def Let_def split: option.splits)

lemma updateAgent_present:
  assumes "stage_status workId agentName s \<noteq> None"
  shows "fst (updateAgent workId agentName st out s) = None"
    and "stage_status workId agentName (snd (updateAgent workId agentName st out s)) = Some st"
proof -
  from assms obtain p a where "find (\<lambda>p. work_id p = workId) (current_processing s) = Some p"
    and "find (\<lambda>a. name a = agentName) (agent_pipeline p) = Some a"
    by (auto simp: stage_status_def split: option.splits)
  then show "fst (updateAgent workId agentName st out s) = None"
    and "stage_status workId agentName (snd (updateAgent workId agentName st out s)) = Some st"
    using updateAgent_found by blast+
qed

lemma updateAgent_absent:
  assumes "stage_status workId agentName s = None"
  shows "fst (updateAgent workId agentName st out s) \<noteq> None"
  using assms by (auto simp: stage_status_def updateAgent_def split: option.splits)

text \<open>
  C10, as the code has it. \<open>updateAgent\<close> enforces no state machine. Whenever the record
  and the stage are found, the call succeeds for every requested status, whatever the
  status of the stage was, and the stage then has the requested status. The call fails
  only when the record or the stage is not found, and then the state is unchanged.
\<close>

theorem updateAgent_no_state_machine:
  "(stage_status workId agentName s \<noteq> None \<longrightarrow>
      fst (updateAgent workId agentName st out s) = None \<and>
      stage_status workId agentName (snd (updateAgent workId agentName st out s)) = Some st)
   \<and> (stage_status workId agentName s = None \<longrightarrow>
      fst (updateAgent workId agentName st out s) \<noteq> None \<and>
      snd (updateAgent workId agentName st out s) = s)"
proof (intro conjI impI)
  assume "stage_status workId agentName s \<noteq> None"
  then show "fst (updateAgent workId agentName st out s) = None"
    and "stage_status workId agentName (snd (updateAgent workId agentName st out s)) = Some st"
    by (rule updateAgent_present)+
next
  assume "stage_status workId agentName s = None"
  then show "fst (updateAgent workId agentName st out s) \<noteq> None"
    by (rule updateAgent_absent)
  then show "snd (updateAgent workId agentName st out s) = s"
    by (rule updateAgent_error_unchanged)
qed

theorem updateAgent_no_state_machine_witness:
  "stage_status ''wq-1'' ''filing'' done_state \<noteq> None
   \<and> fst (updateAgent ''wq-1'' ''filing'' Completed None done_state) = None
   \<and> stage_status ''wq-1'' ''filing''
        (snd (updateAgent ''wq-1'' ''filing'' Completed None done_state)) = Some Completed
   \<and> stage_status ''wq-9'' ''filing'' done_state = None
   \<and> snd (updateAgent ''wq-9'' ''filing'' Completed None done_state) = done_state"
proof -
  have p: "stage_status ''wq-1'' ''filing'' done_state \<noteq> None"
    by (simp add: stage_status_def done_state_def done_task_def mk_agent_def empty_state_def)
  have a: "stage_status ''wq-9'' ''filing'' done_state = None"
    by (simp add: stage_status_def done_state_def done_task_def mk_agent_def empty_state_def)
  from updateAgent_no_state_machine [of "''wq-1''" "''filing''" done_state Completed None]
    updateAgent_no_state_machine [of "''wq-9''" "''filing''" done_state Completed None] p a
  show ?thesis by simp
qed

text \<open>
  C10, as the specification states it, fails: a stage that is already completed is set to
  in-progress without any error, and the record changes.
\<close>

theorem updateAgent_reenters_completed:
  "stage_status ''wq-1'' ''normalization'' done_state = Some Completed
   \<and> fst (updateAgent ''wq-1'' ''normalization'' InProgress None done_state) = None
   \<and> stage_status ''wq-1'' ''normalization''
        (snd (updateAgent ''wq-1'' ''normalization'' InProgress None done_state)) = Some InProgress
   \<and> snd (updateAgent ''wq-1'' ''normalization'' InProgress None done_state) \<noteq> done_state"
  by code_simp

subsection \<open>The work queue\<close>

lemma remove_first_find_None: "find P xs = None \<Longrightarrow> remove_first P xs = xs"
  by (induction xs) (auto split: if_splits)

lemma length_remove_first:
  "find P xs = Some x \<Longrightarrow> Suc (length (remove_first P xs)) = length xs"
  by (induction xs) (auto split: if_splits)

lemma find_distinct_key:
  assumes "distinct (map f xs)" and "x \<in> set xs"
  shows "find (\<lambda>y. f y = f x) xs = Some x"
  using assms by (induction xs) (auto simp: image_iff)

lemma remove_first_distinct_key:
  assumes "distinct (map f xs)" and "x \<in> set xs"
  shows "x \<notin> set (remove_first (\<lambda>y. f y = f x) xs)"
  using assms by (induction xs) (auto simp: image_iff)

lemma getNext_in_queue: "getNext s = Some x \<Longrightarrow> x \<in> set (queue s)"
proof -
  assume g: "getNext s = Some x"
  then have ne: "queue s \<noteq> []" and x: "x = hd (sort_key priority (queue s))"
    by (auto simp: getNext_def split: if_splits)
  from ne have "sort_key priority (queue s) \<noteq> []"
    by (metis length_sort length_0_conv)
  then have "hd (sort_key priority (queue s)) \<in> set (sort_key priority (queue s))"
    by (rule hd_in_set)
  then show ?thesis using x by simp
qed

lemma find_Some_key: "find (\<lambda>y. f y = k) xs = Some y \<Longrightarrow> f y = k \<and> y \<in> set xs"
  by (induction xs) (auto split: if_splits)

lemma find_key_exists: "x \<in> set xs \<Longrightarrow> \<exists>y. find (\<lambda>y. f y = f x) xs = Some y"
  by (induction xs) auto

text \<open>
  C8, as the code has it. Dequeueing is two operations. \<open>getNext\<close> returns the front
  item and saves nothing, so the queue still contains the item. Only a following
  \<open>startProcessing\<close> with the item's id removes an item: the first queued item with that
  id, which it returns, leaving the queue one shorter; when the queued ids are distinct
  this is the item that \<open>getNext\<close> returned, and the queue no longer contains it. For
  the queue holding B (priority 3) and A (priority 1): \<open>getNext\<close> returns A and the
  length is still 2; \<open>startProcessing\<close> of A leaves length 1, after which \<open>getNext\<close>
  returns B; after \<open>startProcessing\<close> of B, \<open>getNext\<close> returns null.
\<close>

theorem getNext_peeks_startProcessing_removes:
  "(getNext s = Some x \<longrightarrow>
      x \<in> set (queue s)
      \<and> (\<exists>y. startProcessing now (id_w x) s
               = (Inr y, s\<lparr>queue := remove_first (\<lambda>i. id_w i = id_w x) (queue s),
                            last_updated := Some now\<rparr>)
             \<and> id_w y = id_w x \<and> y \<in> set (queue s)
             \<and> Suc (length (remove_first (\<lambda>i. id_w i = id_w x) (queue s))) = length (queue s)
             \<and> (distinct (map id_w (queue s)) \<longrightarrow>
                  y = x \<and> x \<notin> set (remove_first (\<lambda>i. id_w i = id_w x) (queue s)))))
   \<and> getNext queue_BA = Some item_A
   \<and> length (queue queue_BA) = 2
   \<and> fst (startProcessing 5 (id_w item_A) queue_BA) = Inr item_A
   \<and> length (queue (snd (startProcessing 5 (id_w item_A) queue_BA))) = 1
   \<and> getNext (snd (startProcessing 5 (id_w item_A) queue_BA)) = Some item_B
   \<and> getNext (snd (startProcessing 6 (id_w item_B)
                      (snd (startProcessing 5 (id_w item_A) queue_BA)))) = None"
proof (intro conjI impI)
  assume g: "getNext s = Some x"
  then show xin: "x \<in> set (queue s)" by (rule getNext_in_queue)
  then obtain y where y: "find (\<lambda>i. id_w i = id_w x) (queue s) = Some y"
    using find_key_exists [of x "queue s" id_w] by blast
  have "startProcessing now (id_w x) s
          = (Inr y, s\<lparr>queue := remove_first (\<lambda>i. id_w i = id_w x) (queue s),
                       last_updated := Some now\<rparr>)"
    using y by (simp add: startProcessing_def)
  moreover have "id_w y = id_w x \<and> y \<in> set (queue s)"
    using y by (rule find_Some_key)
  moreover have "Suc (length (remove_first (\<lambda>i. id_w i = id_w x) (queue s))) = length (queue s)"
    using y by (rule length_remove_first)
  moreover have "distinct (map id_w (queue s)) \<longrightarrow>
                  y = x \<and> x \<notin> set (remove_first (\<lambda>i. id_w i = id_w x) (queue s))"
    using y xin find_distinct_key [of id_w "queue s" x]
      remove_first_distinct_key [of id_w "queue s" x] by auto
  ultimately show "\<exists>y. startProcessing now (id_w x) s
               = (Inr y, s\<lparr>queue := remove_first (\<lambda>i. id_w i = id_w x) (queue s),
                            last_updated := Some now\<rparr>)
             \<and> id_w y = id_w x \<and> y \<in> set (queue s)
             \<and> Suc (length (remove_first (\<lambda>i. id_w i = id_w x) (queue s))) = length (queue s)
             \<and> (distinct (map id_w (queue s)) \<longrightarrow>
                  y = x \<and> x \<notin> set (remove_first (\<lambda>i. id_w i = id_w x) (queue s)))"
    by blast
next
  show "getNext queue_BA = Some item_A" by code_simp
  show "length (queue queue_BA) = 2" by code_simp
  show "fst (startProcessing 5 (id_w item_A) queue_BA) = Inr item_A" by code_simp
  show "length (queue (snd (startProcessing 5 (id_w item_A) queue_BA))) = 1" by code_simp
  show "getNext (snd (startProcessing 5 (id_w item_A) queue_BA)) = Some item_B" by code_simp
  show "getNext (snd (startProcessing 6 (id_w item_B)
                      (snd (startProcessing 5 (id_w item_A) queue_BA)))) = None" by code_simp
qed

theorem getNext_peeks_startProcessing_removes_witness:
  "getNext queue_BA = Some item_A \<and> distinct (map id_w (queue queue_BA))
   \<and> item_A \<in> set (queue queue_BA)
   \<and> item_A \<notin> set (remove_first (\<lambda>i. id_w i = id_w item_A) (queue queue_BA))"
proof -
  have g: "getNext queue_BA = Some item_A" by code_simp
  have d: "distinct (map id_w (queue queue_BA))" by code_simp
  from getNext_peeks_startProcessing_removes [of queue_BA item_A 5] g d
  show ?thesis by blast
qed

text \<open>
  C8, as the specification states it, fails: after \<open>getNext\<close> has returned item A the queue
  still contains A and still has length 2, and a repeated \<open>getNext\<close> returns A again,
  not B.
\<close>

theorem getNext_does_not_remove:
  "getNext queue_BA = Some item_A \<and> item_A \<in> set (queue queue_BA)
   \<and> length (queue queue_BA) = 2 \<and> getNext queue_BA \<noteq> Some item_B"
  by code_simp

lemma hd_sort_key_le:
  assumes "xs \<noteq> []" and "y \<in> set xs"
  shows "f (hd (sort_key f xs)) \<le> f y"
proof -
  from assms(1) have "sort_key f xs \<noteq> []"
    by (metis length_sort length_0_conv)
  then obtain h t where ht: "sort_key f xs = h # t"
    by (cases "sort_key f xs") auto
  have "sorted (map f (sort_key f xs))" by simp
  then have "\<forall>z\<in>set (h # t). f h \<le> f z"
    unfolding ht by auto
  moreover have "y \<in> set (h # t)"
    using assms(2) ht by (metis set_sort)
  ultimately show ?thesis by (auto simp: ht)
qed

lemma hd_sort_key_first:
  assumes "xs \<noteq> []"
  shows "hd (sort_key f xs) = hd (filter (\<lambda>y. f y = f (hd (sort_key f xs))) xs)"
proof -
  from assms have "sort_key f xs \<noteq> []"
    by (metis length_sort length_0_conv)
  then obtain h t where ht: "sort_key f xs = h # t"
    by (cases "sort_key f xs") auto
  have "filter (\<lambda>y. f y = f h) xs = filter (\<lambda>y. f y = f h) (sort_key f xs)"
    by (rule sort_key_stable [symmetric])
  also have "\<dots> = h # filter (\<lambda>y. f y = f h) t"
    by (simp add: ht)
  finally have "hd (filter (\<lambda>y. f y = f h) xs) = h"
    by simp
  then show ?thesis by (simp add: ht)
qed

lemma hd_filter_earliest:
  assumes "sorted (map g xs)" and "y \<in> set xs" and "P y"
  shows "g (hd (filter P xs)) \<le> g y"
  using assms by (induction xs) auto

lemma getNext_minimal:
  assumes "getNext s = Some x" and "y \<in> set (queue s)"
  shows "priority x \<le> priority y"
  using assms hd_sort_key_le [of "queue s" y priority]
  by (auto simp: getNext_def split: if_splits)

lemma getNext_earliest:
  assumes "getNext s = Some x" and "sorted (map created_at (queue s))"
    and "y \<in> set (queue s)" and "priority y = priority x"
  shows "created_at x \<le> created_at y"
proof -
  from assms(1) have ne: "queue s \<noteq> []" and x: "x = hd (sort_key priority (queue s))"
    by (auto simp: getNext_def split: if_splits)
  have "x = hd (filter (\<lambda>z. priority z = priority x) (queue s))"
    using hd_sort_key_first [OF ne, of priority] x by simp
  moreover have "created_at (hd (filter (\<lambda>z. priority z = priority x) (queue s))) \<le> created_at y"
    using assms(2-4) by (intro hd_filter_earliest) auto
  ultimately show ?thesis by simp
qed

lemma addToQueue_queue:
  "queue (snd (addToQueue now fs filePath md s)) = queue s
   \<or> (\<exists>item. queue (snd (addToQueue now fs filePath md s)) = queue s @ [item]
         \<and> created_at item = now)"
  by (auto simp: addToQueue_def Let_def split: option.splits)

lemma addToQueue_sorted:
  assumes "sorted (map created_at (queue s))" and "\<forall>x\<in>set (queue s). created_at x \<le> now"
  shows "sorted (map created_at (queue (snd (addToQueue now fs filePath md s))))"
    and "\<forall>x\<in>set (queue (snd (addToQueue now fs filePath md s))). created_at x \<le> now"
  using assms addToQueue_queue [of now fs filePath md s]
  by (auto simp: sorted_append)

lemma enqueue_all_sorted:
  assumes "sorted (map fst ops)" and "sorted (map created_at (queue s))"
    and "\<forall>x\<in>set (queue s). \<forall>t\<in>set (map fst ops). created_at x \<le> t"
  shows "sorted (map created_at (queue (enqueue_all ops s)))"
  using assms
proof (induction ops arbitrary: s)
  case Nil
  then show ?case by simp
next
  case (Cons op ops)
  obtain now fs filePath md where op: "op = (now, fs, filePath, md)"
    by (cases op) auto
  let ?s = "snd (addToQueue now fs filePath md s)"
  have le: "\<forall>x\<in>set (queue s). created_at x \<le> now"
    using Cons.prems(3) op by simp
  have 1: "sorted (map created_at (queue ?s))"
    and 2: "\<forall>x\<in>set (queue ?s). created_at x \<le> now"
    using addToQueue_sorted [OF Cons.prems(2) le] by blast+
  have 3: "\<forall>t\<in>set (map fst ops). now \<le> t"
    using Cons.prems(1) op by simp
  have "sorted (map created_at (queue (enqueue_all ops ?s)))"
  proof (rule Cons.IH)
    show "sorted (map fst ops)" using Cons.prems(1) by simp
    show "sorted (map created_at (queue ?s))" by (rule 1)
    show "\<forall>x\<in>set (queue ?s). \<forall>t\<in>set (map fst ops). created_at x \<le> t"
      using 2 3 by (meson order_trans)
  qed
  then show ?case by (simp add: op)
qed

lemma getNext_first_of_band:
  assumes "getNext s = Some x"
  shows "x = hd (filter (\<lambda>z. priority z = priority x) (queue s))"
proof -
  from assms have ne: "queue s \<noteq> []" and x: "x = hd (sort_key priority (queue s))"
    by (auto simp: getNext_def split: if_splits)
  show ?thesis using hd_sort_key_first [OF ne, of priority] x by simp
qed

lemma addToQueue_appends:
  "queue (snd (addToQueue now fs filePath md s)) = queue s
   \<or> (\<exists>item. queue (snd (addToQueue now fs filePath md s)) = queue s @ [item]
         \<and> created_at item = now \<and> path (file_w item) = filePath)"
  by (auto simp: addToQueue_def Let_def split: option.splits)

text \<open>
  C7, as the code has it. \<open>getNext\<close> returns null exactly when the queue is empty, and
  otherwise returns a queued item whose priority number is the smallest in the queue and
  which is the first item of that priority in the order of the queue; \<open>addToQueue\<close> either
  leaves the queue as it is or appends the new item at its end, so the order of the queue
  is the order of the enqueues and the item returned is the one of its priority that was
  enqueued first. Its \<open>created_at\<close> is the earliest among the queued items of that priority
  after every sequence of enqueue operations, starting from the empty queue, whose clock
  readings do not decrease. The code never reads \<open>created_at\<close>.
\<close>

theorem getNext_min_priority_then_first_enqueued:
  "(getNext s = None \<longleftrightarrow> queue s = [])
   \<and> (getNext s = Some x \<longrightarrow>
        x \<in> set (queue s)
        \<and> (\<forall>y\<in>set (queue s). priority x \<le> priority y)
        \<and> x = hd (filter (\<lambda>z. priority z = priority x) (queue s)))
   \<and> (queue (snd (addToQueue now fs filePath md s)) = queue s
       \<or> (\<exists>item. queue (snd (addToQueue now fs filePath md s)) = queue s @ [item]
             \<and> created_at item = now \<and> path (file_w item) = filePath))
   \<and> (sorted (map fst ops) \<and> getNext (enqueue_all ops empty_state) = Some x' \<longrightarrow>
        (\<forall>y\<in>set (queue (enqueue_all ops empty_state)).
            priority y = priority x' \<longrightarrow> created_at x' \<le> created_at y))"
proof -
  have a: "getNext s = None \<longleftrightarrow> queue s = []"
    by (simp add: getNext_def)
  have b: "getNext s = Some x \<longrightarrow>
        x \<in> set (queue s)
        \<and> (\<forall>y\<in>set (queue s). priority x \<le> priority y)
        \<and> x = hd (filter (\<lambda>z. priority z = priority x) (queue s))"
  proof (rule impI)
    assume g: "getNext s = Some x"
    have b1: "x \<in> set (queue s)" using g by (rule getNext_in_queue)
    have b2: "\<forall>y\<in>set (queue s). priority x \<le> priority y"
      using getNext_minimal [OF g] by blast
    have b3: "x = hd (filter (\<lambda>z. priority z = priority x) (queue s))"
      using g by (rule getNext_first_of_band)
    show "x \<in> set (queue s)
        \<and> (\<forall>y\<in>set (queue s). priority x \<le> priority y)
        \<and> x = hd (filter (\<lambda>z. priority z = priority x) (queue s))"
      by (intro conjI) (fact b1, fact b2, fact b3)
  qed
  have c: "queue (snd (addToQueue now fs filePath md s)) = queue s
       \<or> (\<exists>item. queue (snd (addToQueue now fs filePath md s)) = queue s @ [item]
             \<and> created_at item = now \<and> path (file_w item) = filePath)"
    by (rule addToQueue_appends)
  have d: "sorted (map fst ops) \<and> getNext (enqueue_all ops empty_state) = Some x' \<longrightarrow>
        (\<forall>y\<in>set (queue (enqueue_all ops empty_state)).
            priority y = priority x' \<longrightarrow> created_at x' \<le> created_at y)"
  proof (rule impI)
    assume h: "sorted (map fst ops) \<and> getNext (enqueue_all ops empty_state) = Some x'"
    then have so: "sorted (map fst ops)"
      and g: "getNext (enqueue_all ops empty_state) = Some x'"
      by simp_all
    have srt: "sorted (map created_at (queue (enqueue_all ops empty_state)))"
      using so by (rule enqueue_all_sorted) (simp_all add: empty_state_def)
    show "\<forall>y\<in>set (queue (enqueue_all ops empty_state)).
            priority y = priority x' \<longrightarrow> created_at x' \<le> created_at y"
      using getNext_earliest [OF g srt] by blast
  qed
  show ?thesis by (intro conjI) (fact a, fact b, fact c, fact d)
qed

theorem getNext_min_priority_then_first_enqueued_witness:
  "getNext (enqueue_all four_enqueues empty_state) = Some first_clip
   \<and> sorted (map fst four_enqueues)
   \<and> map (\<lambda>i. (path (file_w i), priority i, created_at i))
        (queue (enqueue_all four_enqueues empty_state))
       = [(''notes/x.md'', 4, 10), (''00_Inbox/a.md'', 2, 11), (''00_Inbox/b.md'', 2, 11),
          (''00_Inbox/c.md'', 3, 15)]
   \<and> path (file_w first_clip) = ''00_Inbox/a.md''
   \<and> first_clip \<in> set (queue (enqueue_all four_enqueues empty_state))
   \<and> first_clip = hd (filter (\<lambda>z. priority z = priority first_clip)
                        (queue (enqueue_all four_enqueues empty_state)))
   \<and> second_clip \<in> set (queue (enqueue_all four_enqueues empty_state))
   \<and> priority second_clip = priority first_clip
   \<and> created_at first_clip \<le> created_at second_clip
   \<and> first_clip \<noteq> second_clip"
proof -
  let ?s = "enqueue_all four_enqueues empty_state"
  have g: "getNext ?s = Some first_clip" by code_simp
  have h: "sorted (map fst four_enqueues)" by code_simp
  have q: "map (\<lambda>i. (path (file_w i), priority i, created_at i)) (queue ?s)
       = [(''notes/x.md'', 4, 10), (''00_Inbox/a.md'', 2, 11), (''00_Inbox/b.md'', 2, 11),
          (''00_Inbox/c.md'', 3, 15)]"
    by code_simp
  have p: "path (file_w first_clip) = ''00_Inbox/a.md''"
    by (simp add: first_clip_def)
  note inst = getNext_min_priority_then_first_enqueued [where s = ?s and x = first_clip
      and ops = four_enqueues and x' = first_clip,
      THEN conjunct2, THEN conjunct1, THEN mp, OF g]
  have m: "first_clip \<in> set (queue ?s)" using inst by (rule conjunct1)
  have f: "first_clip = hd (filter (\<lambda>z. priority z = priority first_clip) (queue ?s))"
    using inst [THEN conjunct2, THEN conjunct2] .
  have s2: "second_clip \<in> set (queue ?s)" by code_simp
  have p2: "priority second_clip = priority first_clip"
    by (simp add: first_clip_def second_clip_def)
  have hg: "sorted (map fst four_enqueues) \<and> getNext ?s = Some first_clip"
    using h g by (rule conjI)
  note band = getNext_min_priority_then_first_enqueued [where s = ?s and x = first_clip
      and ops = four_enqueues and x' = first_clip,
      THEN conjunct2, THEN conjunct2, THEN conjunct2, THEN mp, OF hg]
  have e: "created_at first_clip \<le> created_at second_clip"
    using band s2 p2 by blast
  have n: "first_clip \<noteq> second_clip"
    by (simp add: first_clip_def second_clip_def)
  show ?thesis
    by (intro conjI) (fact g, fact h, fact q, fact p, fact m, fact f, fact s2, fact p2,
        fact e, fact n)
qed

text \<open>
  C7, as the specification states it, fails: after two enqueues of equal priority between
  which the clock was set back from 11 to 9, \<open>getNext\<close> returns the item enqueued first,
  whose \<open>created_at\<close> is 11, although the other queued item of the same priority has the
  earlier \<open>created_at\<close> 9.
\<close>

theorem getNext_not_earliest_created_at:
  "map (\<lambda>i. (path (file_w i), priority i, created_at i))
        (queue (enqueue_all clock_set_back empty_state))
       = [(''00_Inbox/a.md'', 2, 11), (''00_Inbox/b.md'', 2, 9)]
   \<and> getNext (enqueue_all clock_set_back empty_state) = Some first_clip
   \<and> path (file_w first_clip) = ''00_Inbox/a.md''
   \<and> priority first_clip = 2
   \<and> created_at first_clip = 11"
proof -
  have q: "map (\<lambda>i. (path (file_w i), priority i, created_at i))
        (queue (enqueue_all clock_set_back empty_state))
       = [(''00_Inbox/a.md'', 2, 11), (''00_Inbox/b.md'', 2, 9)]"
    by code_simp
  have g: "getNext (enqueue_all clock_set_back empty_state) = Some first_clip"
    by code_simp
  have f: "path (file_w first_clip) = ''00_Inbox/a.md''" "priority first_clip = 2"
    "created_at first_clip = 11"
    by (simp_all add: first_clip_def)
  show ?thesis by (intro conjI) (fact q, fact g, fact f(1), fact f(2), fact f(3))
qed

subsection \<open>The pipeline executor\<close>

lemma frame_refl: "frame s s"
  by (simp add: frame_def)

lemma frame_trans: "frame a b \<Longrightarrow> frame b c \<Longrightarrow> frame a c"
  by (simp add: frame_def)

lemma trace_within_refl: "trace_within wid A s s"
  by (simp add: trace_within_def)

lemma trace_within_trans:
  "trace_within wid A a b \<Longrightarrow> trace_within wid A b c \<Longrightarrow> trace_within wid A a c"
  by (auto simp: trace_within_def)

lemma trace_within_mono:
  assumes "A \<subseteq> B" and "trace_within wid A s s'"
  shows "trace_within wid B s s'"
proof -
  from assms(2) obtain new where n: "invoked s' = invoked s @ new" "set new \<subseteq> {wid} \<times> A"
    unfolding trace_within_def by blast
  from assms(1) have "{wid} \<times> A \<subseteq> {wid} \<times> B" by blast
  with n(2) have "set new \<subseteq> {wid} \<times> B" by (rule subset_trans)
  with n(1) show ?thesis unfolding trace_within_def by blast
qed

lemma map_update_first:
  assumes "\<And>x. g (f x) = g x"
  shows "map g (update_first P f xs) = map g xs"
  using assms by (induction xs) auto

lemma map_update_first_const:
  assumes "find P xs = Some p" and "g p' = g p"
  shows "map g (update_first P (\<lambda>_. p') xs) = map g xs"
  using assms by (induction xs) (auto split: if_splits)

lemma map_option_find_update_first:
  assumes "\<And>x. Q (f x) = Q x" and "\<And>x. g (f x) = g x"
  shows "map_option g (find Q (update_first P f xs)) = map_option g (find Q xs)"
  using assms by (induction xs) auto

lemma stage_status_alt:
  "stage_status w a s =
     Option.bind (map_option agent_pipeline (find (\<lambda>p. work_id p = w) (current_processing s)))
       (\<lambda>pl. map_option status (find (\<lambda>x. name x = a) pl))"
  by (simp add: stage_status_def split: option.splits)

lemma updateAgent_fields:
  assumes "updateAgent wid an st out s = (e, s')"
  shows "frame s s'" and "invoked s' = invoked s" and "delays s' = delays s"
proof -
  have "frame s (snd (updateAgent wid an st out s))"
    by (auto simp: updateAgent_def Let_def frame_def manifest_shape_def map_update_first
        map_update_first_const split: option.splits)
  then show "frame s s'" using assms by simp
  show "invoked s' = invoked s" and "delays s' = delays s"
    using assms by (auto simp: updateAgent_def Let_def split: option.splits)
qed

lemma incrementRetry_fields:
  assumes "incrementRetry wid s = (e, s')"
  shows "frame s s'" and "invoked s' = invoked s" and "delays s' = delays s"
    and "stage_status w a s' = stage_status w a s"
proof -
  have "frame s (snd (incrementRetry wid s))"
    by (auto simp: incrementRetry_def frame_def manifest_shape_def map_update_first
        split: option.splits)
  then show "frame s s'" using assms by simp
  show "invoked s' = invoked s" and "delays s' = delays s"
    using assms by (auto simp: incrementRetry_def split: option.splits)
  have "stage_status w a (snd (incrementRetry wid s)) = stage_status w a s"
    by (simp add: incrementRetry_def stage_status_alt map_option_find_update_first
        split: option.splits)
  then show "stage_status w a s' = stage_status w a s" using assms by simp
qed

lemma execute_agent_fields:
  assumes "execute_agent env wid an s = (ok, s')"
  shows "frame s s'" and "invoked s' = invoked s @ [(wid, an)]" and "delays s' = delays s"
    and "stage_status w a s' = stage_status w a s" and "ok = env (length (invoked s)) an"
  using assms by (auto simp: execute_agent_def frame_def manifest_shape_def stage_status_def)

lemma wait_fields:
  shows "frame s (wait d s)" and "invoked (wait d s) = invoked s"
    and "delays (wait d s) = delays s @ [d]"
    and "stage_status w a (wait d s) = stage_status w a s"
  by (auto simp: wait_def frame_def manifest_shape_def stage_status_def)

lemma find_mapped: "find P (map f xs) = map_option f (find (\<lambda>x. P (f x)) xs)"
  by (induction xs) auto

lemma stage_present_shape:
  "stage_status w a s \<noteq> None \<longleftrightarrow>
     (\<exists>q. find (\<lambda>q. fst q = w) (manifest_shape s) = Some q \<and> a \<in> set (snd q))"
proof -
  have "find (\<lambda>q. fst q = w) (manifest_shape s)
          = map_option (\<lambda>p. (work_id p, map name (agent_pipeline p)))
              (find (\<lambda>p. work_id p = w) (current_processing s))"
    by (simp add: manifest_shape_def find_mapped)
  moreover have "\<And>p. find (\<lambda>x. name x = a) (agent_pipeline p) \<noteq> None
                    \<longleftrightarrow> a \<in> set (map name (agent_pipeline p))"
    by (auto simp: find_None_iff)
  ultimately show ?thesis
    by (auto simp: stage_status_def split: option.splits)
qed

lemma frame_stage_present:
  "frame s s' \<Longrightarrow> stage_status w a s \<noteq> None \<Longrightarrow> stage_status w a s' \<noteq> None"
  unfolding stage_present_shape by (simp add: frame_def)

lemma attempts_rel:
  assumes refl: "\<And>s. R s s"
    and trans: "\<And>a b c. R a b \<Longrightarrow> R b c \<Longrightarrow> R a c"
    and ex: "\<And>s b s'. execute_agent env wid an s = (b, s') \<Longrightarrow> R s s'"
    and up: "\<And>st out s e s'. updateAgent wid an st out s = (e, s') \<Longrightarrow> R s s'"
    and inc: "\<And>s e s'. incrementRetry wid s = (e, s') \<Longrightarrow> R s s'"
    and w: "\<And>d s. R s (wait d s)"
  shows "attempts env mr wid an r s = (res, s') \<Longrightarrow> R s s'"
proof (induction "Suc mr - r" arbitrary: r s)
  case 0
  then have "\<not> r \<le> mr" by simp
  with "0.prems" have "s' = s"
    by (subst (asm) attempts.simps) simp
  then show ?case by (simp add: refl)
next
  case (Suc n)
  then have le: "r \<le> mr" by simp
  obtain ok s1 where e1: "execute_agent env wid an s = (ok, s1)"
    by (cases "execute_agent env wid an s")
  obtain x s2 where e2: "(if ok then updateAgent wid an Completed (Some ''completed'') s1
                          else (Some ExecutionError, s1)) = (x, s2)"
    by (cases "if ok then updateAgent wid an Completed (Some ''completed'') s1
               else (Some ExecutionError, s1)")
  have r1: "R s s1" using e1 by (rule ex)
  have r2: "R s1 s2" using e2 up refl by (auto split: if_splits)
  have r12: "R s s2" using r1 r2 by (rule trans)
  show ?case
  proof (cases x)
    case None
    with Suc.prems le e1 e2 have "s' = s2"
      by (subst (asm) attempts.simps) simp
    then show ?thesis using r12 by simp
  next
    case (Some e)
    show ?thesis
    proof (cases "r + 1 \<le> mr")
      case True
      obtain y s3 where e3: "incrementRetry wid s2 = (y, s3)"
        by (cases "incrementRetry wid s2")
      have r3: "R s s3" using r12 inc [OF e3] by (rule trans)
      show ?thesis
      proof (cases y)
        case None
        with Suc.prems le e1 e2 Some True e3
        have rec: "attempts env mr wid an (r + 1) (wait (1000 * (r + 1)) s3) = (res, s')"
          by (subst (asm) attempts.simps) simp
        have "n = Suc mr - (r + 1)" using Suc.hyps(2) by simp
        then have "R (wait (1000 * (r + 1)) s3) s'"
          using rec by (rule Suc.hyps(1))
        then show ?thesis using r3 w trans by blast
      next
        case (Some e')
        with Suc.prems le e1 e2 \<open>x = Some e\<close> True e3 have "s' = s3"
          by (subst (asm) attempts.simps) simp
        then show ?thesis using r3 by simp
      qed
    next
      case False
      obtain y s3 where e3: "updateAgent wid an Failed (Some ''Agent execution failed'') s2 = (y, s3)"
        by (cases "updateAgent wid an Failed (Some ''Agent execution failed'') s2")
      have r3: "R s s3" using r12 up [OF e3] by (rule trans)
      from Suc.prems le e1 e2 Some False e3 have "s' = s3"
        by (subst (asm) attempts.simps) (auto split: option.splits)
      then show ?thesis using r3 by simp
    qed
  qed
qed


lemma attempts_frame: "attempts env mr wid an r s = (res, s') \<Longrightarrow> frame s s'"
proof (rule attempts_rel [where R = frame])
  show "attempts env mr wid an r s = (res, s')" if "attempts env mr wid an r s = (res, s')"
    using that .
qed (auto intro: frame_refl frame_trans updateAgent_fields incrementRetry_fields
      execute_agent_fields wait_fields)

lemma updateAgent_error_kind: "updateAgent wid an st out s = (Some e, s') \<Longrightarrow> e \<noteq> AgentFailed a"
  by (auto simp: updateAgent_def Let_def split: option.splits)

lemma incrementRetry_error_kind: "incrementRetry wid s = (Some e, s') \<Longrightarrow> e \<noteq> AgentFailed a"
  by (auto simp: incrementRetry_def split: option.splits)

lemma incrementRetry_present:
  "stage_status wid an s \<noteq> None \<Longrightarrow> fst (incrementRetry wid s) = None"
  by (auto simp: incrementRetry_def stage_status_def split: option.splits)

lemma updateAgent_None_status:
  assumes "updateAgent wid an st out s = (None, s')"
  shows "stage_status wid an s' = Some st"
proof -
  have "stage_status wid an s \<noteq> None"
    using assms updateAgent_absent [of wid an s st out] by auto
  then have "stage_status wid an (snd (updateAgent wid an st out s)) = Some st"
    by (rule updateAgent_present)
  then show ?thesis using assms by simp
qed

lemma attempts_count:
  assumes "r \<le> mr" and "attempts env mr wid an r s = (res, s')"
  shows "\<exists>k. 1 \<le> k \<and> r + k \<le> mr + 1
           \<and> invoked s' = invoked s @ replicate k (wid, an)
           \<and> length (delays s') = length (delays s) + (k - 1)
           \<and> (res = Some (AgentFailed an) \<longrightarrow>
                 r + k = mr + 1 \<and> stage_status wid an s' = Some Failed)
           \<and> (stage_status wid an s \<noteq> None
                \<and> (\<forall>j. r + j \<le> mr \<longrightarrow> \<not> env (length (invoked s) + j) an)
               \<longrightarrow> res = Some (AgentFailed an))"
  using assms
proof (induction "Suc mr - r" arbitrary: r s)
  case 0
  then show ?case by simp
next
  case (Suc n)
  have le: "r \<le> mr" and run: "attempts env mr wid an r s = (res, s')"
    using Suc.prems by simp_all
  obtain ok s1 where e1: "execute_agent env wid an s = (ok, s1)"
    by (cases "execute_agent env wid an s")
  obtain x s2 where e2: "(if ok then updateAgent wid an Completed (Some ''completed'') s1
                          else (Some ExecutionError, s1)) = (x, s2)"
    by (cases "if ok then updateAgent wid an Completed (Some ''completed'') s1
               else (Some ExecutionError, s1)")
  have i1: "invoked s1 = invoked s @ [(wid, an)]" and d1: "delays s1 = delays s"
    and ok: "ok = env (length (invoked s)) an" and f1: "frame s s1"
    using execute_agent_fields [OF e1] by simp_all
  have i2: "invoked s2 = invoked s1" and d2: "delays s2 = delays s1" and f2: "frame s1 s2"
    and okx: "x = None \<longrightarrow> ok"
    using e2 updateAgent_fields [of wid an Completed "Some ''completed''" s1 x s2]
    by (auto simp: frame_refl split: if_splits)
  have f12: "frame s s2" using f1 f2 by (rule frame_trans)
  let ?fails = "stage_status wid an s \<noteq> None
                \<and> (\<forall>j. r + j \<le> mr \<longrightarrow> \<not> env (length (invoked s) + j) an)"
  have not_ok: "\<not> ok" if "?fails"
    using that le ok by (metis add.right_neutral)
  show ?case
  proof (cases x)
    case None
    with run le e1 e2 have rs: "res = None \<and> s' = s2"
      by (subst (asm) attempts.simps) auto
    have "invoked s' = invoked s @ replicate 1 (wid, an)"
      using rs i1 i2 by simp
    moreover have "length (delays s') = length (delays s) + (1 - 1)"
      using rs d1 d2 by simp
    moreover have "\<not> ?fails" using not_ok okx None by blast
    ultimately show ?thesis using rs le
      by (intro exI [of _ 1]) simp
  next
    case (Some e)
    show ?thesis
    proof (cases "r + 1 \<le> mr")
      case True
      obtain y s3 where e3: "incrementRetry wid s2 = (y, s3)"
        by (cases "incrementRetry wid s2")
      have i3: "invoked s3 = invoked s2" and d3: "delays s3 = delays s2" and f3: "frame s2 s3"
        using incrementRetry_fields [OF e3] by simp_all
      have f13: "frame s s3" using f12 f3 by (rule frame_trans)
      show ?thesis
      proof (cases y)
        case None
        let ?w = "wait (1000 * (r + 1)) s3"
        from run le e1 e2 Some True e3 None
        have rec: "attempts env mr wid an (r + 1) ?w = (res, s')"
          by (subst (asm) attempts.simps) simp
        have n: "n = Suc mr - (r + 1)" using Suc.hyps(2) by simp
        from Suc.hyps(1) [OF n True rec] obtain k where
          k: "1 \<le> k" "r + 1 + k \<le> mr + 1"
             "invoked s' = invoked ?w @ replicate k (wid, an)"
             "length (delays s') = length (delays ?w) + (k - 1)"
             "res = Some (AgentFailed an) \<longrightarrow>
                 r + 1 + k = mr + 1 \<and> stage_status wid an s' = Some Failed"
             "stage_status wid an ?w \<noteq> None
                \<and> (\<forall>j. r + 1 + j \<le> mr \<longrightarrow> \<not> env (length (invoked ?w) + j) an)
               \<longrightarrow> res = Some (AgentFailed an)"
          by blast
        have iw: "invoked ?w = invoked s @ [(wid, an)]"
          using i1 i2 i3 by (simp add: wait_fields)
        have dw: "length (delays ?w) = length (delays s) + 1"
          using d1 d2 d3 by (simp add: wait_fields)
        have fw: "frame s ?w"
          using f13 wait_fields(1) by (rule frame_trans)
        have "invoked s' = invoked s @ replicate (k + 1) (wid, an)"
          using k(3) iw by (simp add: replicate_app_Cons_same)
        moreover have "length (delays s') = length (delays s) + (k + 1 - 1)"
          using k(1,4) dw by simp
        moreover have "res = Some (AgentFailed an) \<longrightarrow>
                 r + (k + 1) = mr + 1 \<and> stage_status wid an s' = Some Failed"
          using k(5) by simp
        moreover have "res = Some (AgentFailed an)" if a: "?fails"
        proof -
          have "stage_status wid an s \<noteq> None" using a by simp
          with fw have "stage_status wid an ?w \<noteq> None"
            by (rule frame_stage_present)
          moreover have "\<forall>j. r + 1 + j \<le> mr \<longrightarrow> \<not> env (length (invoked ?w) + j) an"
          proof (intro allI impI)
            fix j assume "r + 1 + j \<le> mr"
            then have "r + (j + 1) \<le> mr" by simp
            with a have nf: "\<not> env (length (invoked s) + (j + 1)) an" by blast
            have eq: "length (invoked ?w) + j = length (invoked s) + (j + 1)"
              using iw by simp
            show "\<not> env (length (invoked ?w) + j) an"
              by (subst eq) (rule nf)
          qed
          ultimately show ?thesis using k(6) by blast
        qed
        ultimately show ?thesis using k(1,2)
          by (intro exI [of _ "k + 1"]) simp
      next
        case (Some e')
        with run le e1 e2 \<open>x = Some e\<close> True e3 have rs: "res = Some e' \<and> s' = s3"
          by (subst (asm) attempts.simps) simp
        have ne: "e' \<noteq> AgentFailed an"
          using e3 Some incrementRetry_error_kind by blast
        have "invoked s' = invoked s @ replicate 1 (wid, an)"
          using rs i1 i2 i3 by simp
        moreover have "length (delays s') = length (delays s) + (1 - 1)"
          using rs d1 d2 d3 by simp
        moreover have "\<not> ?fails"
        proof
          assume a: "?fails"
          then have "stage_status wid an s \<noteq> None" by simp
          with f12 have "stage_status wid an s2 \<noteq> None"
            by (rule frame_stage_present)
          then have "fst (incrementRetry wid s2) = None"
            by (rule incrementRetry_present)
          with e3 Some show False by simp
        qed
        ultimately show ?thesis using rs le ne
          by (intro exI [of _ 1]) simp
      qed
    next
      case False
      then have rm: "r = mr" using le by simp
      obtain y s3 where
        e3: "updateAgent wid an Failed (Some ''Agent execution failed'') s2 = (y, s3)"
        by (cases "updateAgent wid an Failed (Some ''Agent execution failed'') s2")
      have i3: "invoked s3 = invoked s2" and d3: "delays s3 = delays s2"
        using updateAgent_fields [OF e3] by simp_all
      have i: "invoked s3 = invoked s @ replicate 1 (wid, an)"
        using i1 i2 i3 by simp
      have d: "length (delays s3) = length (delays s) + (1 - 1)"
        using d1 d2 d3 by simp
      show ?thesis
      proof (cases y)
        case None
        with run le e1 e2 Some False e3 have rs: "res = Some (AgentFailed an) \<and> s' = s3"
          by (subst (asm) attempts.simps) simp
        have "stage_status wid an s3 = Some Failed"
          using e3 None updateAgent_None_status by blast
        then show ?thesis using rs rm i d
          by (intro exI [of _ 1]) simp
      next
        case (Some e')
        with run le e1 e2 \<open>x = Some e\<close> False e3 have rs: "res = Some e' \<and> s' = s3"
          by (subst (asm) attempts.simps) simp
        have ne: "e' \<noteq> AgentFailed an"
          using e3 Some updateAgent_error_kind by blast
        have "\<not> ?fails"
        proof
          assume a: "?fails"
          then have "stage_status wid an s \<noteq> None" by simp
          with f12 have "stage_status wid an s2 \<noteq> None"
            by (rule frame_stage_present)
          then have "fst (updateAgent wid an Failed (Some ''Agent execution failed'') s2) = None"
            by (rule updateAgent_present)
          with e3 Some show False by simp
        qed
        then show ?thesis using rs rm i d ne
          by (intro exI [of _ 1]) simp
      qed
    qed
  qed
qed

lemma run_stage_count:
  assumes "run_stage env mr wid an s = (res, s')"
  shows "\<exists>k\<le>mr + 1. invoked s' = invoked s @ replicate k (wid, an)
           \<and> length (delays s') = length (delays s) + (k - 1)
           \<and> (res = Some (AgentFailed an) \<longrightarrow>
                 k = mr + 1 \<and> stage_status wid an s' = Some Failed)
           \<and> (stage_status wid an s \<noteq> None
                \<and> (\<forall>j\<le>mr. \<not> env (length (invoked s) + j) an)
               \<longrightarrow> res = Some (AgentFailed an))"
proof -
  obtain y s1 where u: "updateAgent wid an InProgress None s = (y, s1)"
    by (cases "updateAgent wid an InProgress None s")
  have i1: "invoked s1 = invoked s" and d1: "delays s1 = delays s"
    using updateAgent_fields [OF u] by simp_all
  show ?thesis
  proof (cases y)
    case (Some e)
    with assms u have rs: "res = Some e \<and> s' = s1"
      by (simp add: run_stage_def)
    have ne: "e \<noteq> AgentFailed an"
      using u Some updateAgent_error_kind by blast
    have "\<not> stage_status wid an s \<noteq> None"
    proof
      assume "stage_status wid an s \<noteq> None"
      then have "fst (updateAgent wid an InProgress None s) = None"
        by (rule updateAgent_present)
      with u Some show False by simp
    qed
    then show ?thesis using rs ne i1 d1
      by (intro exI [of _ 0]) simp
  next
    case None
    with assms u have a: "attempts env mr wid an 0 s1 = (res, s')"
      by (simp add: run_stage_def)
    have p1: "stage_status wid an s1 \<noteq> None"
      using u None updateAgent_None_status [of wid an InProgress None s s1] by simp
    from attempts_count [OF _ a] obtain k where
      k: "1 \<le> k" "0 + k \<le> mr + 1"
         "invoked s' = invoked s1 @ replicate k (wid, an)"
         "length (delays s') = length (delays s1) + (k - 1)"
         "res = Some (AgentFailed an) \<longrightarrow>
             0 + k = mr + 1 \<and> stage_status wid an s' = Some Failed"
         "stage_status wid an s1 \<noteq> None
            \<and> (\<forall>j. 0 + j \<le> mr \<longrightarrow> \<not> env (length (invoked s1) + j) an)
           \<longrightarrow> res = Some (AgentFailed an)"
      by blast
    have "(\<forall>j\<le>mr. \<not> env (length (invoked s) + j) an) \<longrightarrow> res = Some (AgentFailed an)"
      using k(6) p1 i1 by simp
    then show ?thesis using k(2-5) i1 d1
      by (intro exI [of _ k]) simp
  qed
qed

lemma run_stage_frame:
  assumes "run_stage env mr wid an s = (res, s')"
  shows "frame s s'"
proof -
  obtain y s1 where u: "updateAgent wid an InProgress None s = (y, s1)"
    by (cases "updateAgent wid an InProgress None s")
  have f1: "frame s s1" using u by (rule updateAgent_fields)
  show ?thesis
  proof (cases y)
    case (Some e)
    with assms u have "s' = s1" by (simp add: run_stage_def)
    then show ?thesis using f1 by simp
  next
    case None
    with assms u have "attempts env mr wid an 0 s1 = (res, s')"
      by (simp add: run_stage_def)
    then have "frame s1 s'" by (rule attempts_frame)
    with f1 show ?thesis by (rule frame_trans)
  qed
qed

lemma run_stage_trace:
  assumes "run_stage env mr wid an s = (res, s')"
  shows "trace_within wid {an} s s'"
proof -
  from run_stage_count [OF assms] obtain k where
    "invoked s' = invoked s @ replicate k (wid, an)" by blast
  moreover have "set (replicate k (wid, an)) \<subseteq> {wid} \<times> {an}" by auto
  ultimately show ?thesis unfolding trace_within_def by blast
qed

lemma executeAgentPipeline_frame:
  "executeAgentPipeline env mr wid agents s = (res, s') \<Longrightarrow> frame s s'"
proof (induction agents arbitrary: s)
  case Nil
  then show ?case by (simp add: frame_refl)
next
  case (Cons an rest)
  obtain y s1 where r: "run_stage env mr wid an s = (y, s1)"
    by (cases "run_stage env mr wid an s")
  have f1: "frame s s1" using r by (rule run_stage_frame)
  show ?case
  proof (cases y)
    case (Some e)
    with Cons.prems r have "s' = s1" by simp
    then show ?thesis using f1 by simp
  next
    case None
    with Cons.prems r have "executeAgentPipeline env mr wid rest s1 = (res, s')" by simp
    then have "frame s1 s'" by (rule Cons.IH)
    with f1 show ?thesis by (rule frame_trans)
  qed
qed

lemma executeAgentPipeline_trace:
  "executeAgentPipeline env mr wid agents s = (res, s') \<Longrightarrow> trace_within wid (set agents) s s'"
proof (induction agents arbitrary: s)
  case Nil
  then show ?case by (simp add: trace_within_refl)
next
  case (Cons an rest)
  obtain y s1 where r: "run_stage env mr wid an s = (y, s1)"
    by (cases "run_stage env mr wid an s")
  have "trace_within wid {an} s s1" using r by (rule run_stage_trace)
  then have t1: "trace_within wid (set (an # rest)) s s1"
    by (rule trace_within_mono [rotated]) simp
  show ?case
  proof (cases y)
    case (Some e)
    with Cons.prems r have "s' = s1" by simp
    then show ?thesis using t1 by simp
  next
    case None
    with Cons.prems r have "executeAgentPipeline env mr wid rest s1 = (res, s')" by simp
    then have "trace_within wid (set rest) s1 s'" by (rule Cons.IH)
    then have "trace_within wid (set (an # rest)) s1 s'"
      by (rule trace_within_mono [rotated]) auto
    with t1 show ?thesis by (rule trace_within_trans)
  qed
qed

lemma executeAgentPipeline_append:
  "executeAgentPipeline env mr wid (pre @ post) s =
     (case executeAgentPipeline env mr wid pre s of
        (Some e, s1) \<Rightarrow> (Some e, s1)
      | (None, s1) \<Rightarrow> executeAgentPipeline env mr wid post s1)"
  by (induction pre arbitrary: s) (auto split: prod.splits option.splits)

text \<open>
  C4, as the code has it. For each stage the executor makes at most \<open>maxRetries + 1\<close>
  attempts (the first attempt and \<open>maxRetries\<close> retries; \<open>maxRetries\<close> is 3), all of that
  same stage, with one wait before each retry. When the earlier stages have succeeded and
  every attempt of the stage fails, the stage has been attempted exactly
  \<open>maxRetries + 1\<close> times with \<open>maxRetries\<close> waits, is marked failed, and the run ends
  with the error of that stage without invoking any later stage.
\<close>

theorem executeAgentPipeline_bounded_retry:
  "(run_stage env mr wid an s = (res, s') \<longrightarrow>
      (\<exists>k\<le>mr + 1. invoked s' = invoked s @ replicate k (wid, an)
          \<and> length (delays s') = length (delays s) + (k - 1)))
   \<and> (executeAgentPipeline env mr wid pre s = (None, s1)
       \<and> stage_status wid an s1 \<noteq> None
       \<and> (\<forall>j\<le>mr. \<not> env (length (invoked s1) + j) an) \<longrightarrow>
      (\<exists>s2. executeAgentPipeline env mr wid (pre @ an # post) s = (Some (AgentFailed an), s2)
          \<and> invoked s2 = invoked s1 @ replicate (mr + 1) (wid, an)
          \<and> length (delays s2) = length (delays s1) + mr
          \<and> stage_status wid an s2 = Some Failed))"
proof (intro conjI impI)
  assume "run_stage env mr wid an s = (res, s')"
  from run_stage_count [OF this]
  show "\<exists>k\<le>mr + 1. invoked s' = invoked s @ replicate k (wid, an)
          \<and> length (delays s') = length (delays s) + (k - 1)"
    by blast
next
  assume a: "executeAgentPipeline env mr wid pre s = (None, s1)
       \<and> stage_status wid an s1 \<noteq> None
       \<and> (\<forall>j\<le>mr. \<not> env (length (invoked s1) + j) an)"
  obtain y s2 where r: "run_stage env mr wid an s1 = (y, s2)"
    by (cases "run_stage env mr wid an s1")
  from run_stage_count [OF r] a obtain k where
    k: "invoked s2 = invoked s1 @ replicate k (wid, an)"
       "length (delays s2) = length (delays s1) + (k - 1)"
       "y = Some (AgentFailed an) \<longrightarrow> k = mr + 1 \<and> stage_status wid an s2 = Some Failed"
       "y = Some (AgentFailed an)"
    by blast
  have "executeAgentPipeline env mr wid (pre @ an # post) s = (Some (AgentFailed an), s2)"
    using a r k(4) by (simp add: executeAgentPipeline_append)
  moreover have "invoked s2 = invoked s1 @ replicate (mr + 1) (wid, an)"
    using k(1,3,4) by simp
  moreover have "length (delays s2) = length (delays s1) + mr"
    using k(2,3,4) by simp
  moreover have "stage_status wid an s2 = Some Failed"
    using k(3,4) by simp
  ultimately show "\<exists>s2. executeAgentPipeline env mr wid (pre @ an # post) s
            = (Some (AgentFailed an), s2)
          \<and> invoked s2 = invoked s1 @ replicate (mr + 1) (wid, an)
          \<and> length (delays s2) = length (delays s1) + mr
          \<and> stage_status wid an s2 = Some Failed"
    by blast
qed

theorem executeAgentPipeline_bounded_retry_witness:
  "fst (executeAgentPipeline linking_down 3 ''wq-1'' [''normalization''] fresh_state) = None
   \<and> (\<exists>s2. executeAgentPipeline linking_down 3 ''wq-1''
               ([''normalization''] @ ''linking'' # [''filing'']) fresh_state
             = (Some (AgentFailed ''linking''), s2)
          \<and> invoked s2 = [(''wq-1'', ''normalization'')] @ replicate (3 + 1) (''wq-1'', ''linking'')
          \<and> stage_status ''wq-1'' ''linking'' s2 = Some Failed
          \<and> stage_status ''wq-1'' ''filing'' s2 = Some Pending)"
proof -
  let ?r = "executeAgentPipeline linking_down 3 ''wq-1'' [''normalization''] fresh_state"
  have p: "?r = (None, snd ?r)" by code_simp
  have q: "stage_status ''wq-1'' ''linking'' (snd ?r) \<noteq> None" by code_simp
  have f: "\<forall>j\<le>3. \<not> linking_down (length (invoked (snd ?r)) + j) ''linking''"
    by (simp add: linking_down_def)
  have i: "invoked (snd ?r) = [(''wq-1'', ''normalization'')]" by code_simp
  have rest: "stage_status ''wq-1'' ''filing''
     (snd (executeAgentPipeline linking_down 3 ''wq-1''
               ([''normalization''] @ ''linking'' # [''filing'']) fresh_state)) = Some Pending"
    by code_simp
  from executeAgentPipeline_bounded_retry [of linking_down 3 "''wq-1''" "''linking''"
      fresh_state None fresh_state "[''normalization'']" "snd ?r" "[''filing'']"] p q f
  obtain s2 where s2: "executeAgentPipeline linking_down 3 ''wq-1''
               ([''normalization''] @ ''linking'' # [''filing'']) fresh_state
             = (Some (AgentFailed ''linking''), s2)"
     "invoked s2 = invoked (snd ?r) @ replicate (3 + 1) (''wq-1'', ''linking'')"
     "stage_status ''wq-1'' ''linking'' s2 = Some Failed"
    by auto
  have st: "stage_status ''wq-1'' ''filing'' s2 = Some Pending"
    using rest s2(1) by simp
  have p1: "fst ?r = None" by code_simp
  have inv: "invoked s2 = [(''wq-1'', ''normalization'')] @ replicate (3 + 1) (''wq-1'', ''linking'')"
    by (subst s2(2), subst i, rule refl)
  show ?thesis
    by (intro conjI exI [of _ s2]) (fact p1, fact s2(1), fact inv, fact s2(3), fact st)
qed

text \<open>
  C4, as the specification states it, fails: with \<open>maxRetries = 3\<close> a stage that keeps failing is
  attempted four times, not at most three, and the waits between the attempts are 1000,
  2000 and 3000 milliseconds, which is not \<open>baseDelay * 2 ^ (attempt - 1)\<close>.
\<close>

theorem executeAgentPipeline_four_attempts:
  "maxRetries_mp = 3
   \<and> fst (executeAgentPipeline linking_down maxRetries_mp ''wq-1''
           [''normalization'', ''linking'', ''filing''] fresh_state)
       = Some (AgentFailed ''linking'')
   \<and> invoked (snd (executeAgentPipeline linking_down maxRetries_mp ''wq-1''
                     [''normalization'', ''linking'', ''filing''] fresh_state))
       = [(''wq-1'', ''normalization''), (''wq-1'', ''linking''), (''wq-1'', ''linking''),
          (''wq-1'', ''linking''), (''wq-1'', ''linking'')]
   \<and> delays (snd (executeAgentPipeline linking_down maxRetries_mp ''wq-1''
                     [''normalization'', ''linking'', ''filing''] fresh_state))
       = [1000, 2000, 3000]"
  by code_simp

subsection \<open>The recovery processor\<close>

lemma last_filter_split:
  "filter P xs \<noteq> [] \<Longrightarrow>
     \<exists>ys zs. xs = ys @ last (filter P xs) # zs \<and> P (last (filter P xs)) \<and> (\<forall>z\<in>set zs. \<not> P z)"
proof (induction xs rule: rev_induct)
  case Nil
  then show ?case by simp
next
  case (snoc x xs)
  show ?case
  proof (cases "P x")
    case True
    then have "xs @ [x] = xs @ last (filter P (xs @ [x])) # []" by simp
    with True show ?thesis by (metis empty_iff last_snoc filter_append filter.simps list.set(1))
  next
    case False
    with snoc.prems have ne: "filter P xs \<noteq> []" by simp
    from snoc.IH [OF ne] obtain ys zs where
      s: "xs = ys @ last (filter P xs) # zs" "P (last (filter P xs))" "\<forall>z\<in>set zs. \<not> P z"
      by blast
    have l: "last (filter P (xs @ [x])) = last (filter P xs)" using False by simp
    have "xs @ [x] = ys @ last (filter P xs) # (zs @ [x])" using s(1) by simp
    moreover have "\<forall>z\<in>set (zs @ [x]). \<not> P z" using s(3) False by simp
    ultimately show ?thesis unfolding l using s(2) by blast
  qed
qed

lemma findIndex_ge: "- 1 \<le> findIndex P xs"
  by (induction xs) (auto simp: Let_def)

lemma findIndex_split:
  assumes "P x" and "\<forall>y\<in>set ys. \<not> P y"
  shows "findIndex P (ys @ x # zs) = int (length ys)"
  using assms by (induction ys) (auto simp: Let_def)

lemma slice_from_drop:
  assumes "\<And>k. start = Some k \<Longrightarrow> 0 \<le> k"
  shows "slice_from start xs = drop (case start of None \<Rightarrow> 0 | Some k \<Rightarrow> nat k) xs"
  using assms by (auto simp: slice_from_def split: option.splits)

lemma resumeFromIndex_nonneg:
  "resumeFromIndex (findLastCheckpoint task) = Some k \<Longrightarrow> 0 \<le> k"
  using findIndex_ge [of "\<lambda>a. name a = name (last (filter (\<lambda>a. status a = Completed)
      (agent_pipeline task)))" "agent_pipeline task"]
  by (auto simp: findLastCheckpoint_def Let_def split: if_splits)

lemma remaining_is_drop:
  "slice_from (resumeFromIndex (findLastCheckpoint task)) (agent_pipeline task)
     = drop (resume_position task) (agent_pipeline task)"
  unfolding resume_position_def
  by (rule slice_from_drop) (rule resumeFromIndex_nonneg)

lemma checkpoint_none_completed:
  assumes "\<forall>a\<in>set (agent_pipeline task). status a \<noteq> Completed"
  shows "resumeFromIndex (findLastCheckpoint task) = None"
proof -
  have "filter (\<lambda>a. status a = Completed) (agent_pipeline task) = []"
    using assms by (simp add: filter_empty_conv)
  then show ?thesis by (simp add: findLastCheckpoint_def)
qed

lemma notin_image_all: "x \<notin> f ` A \<Longrightarrow> \<forall>y\<in>A. f y \<noteq> x"
  by auto

lemma checkpoint_some_completed:
  assumes d: "distinct (map name (agent_pipeline task))"
    and c: "\<exists>a\<in>set (agent_pipeline task). status a = Completed"
  shows "\<exists>ys l zs. agent_pipeline task = ys @ l # zs \<and> status l = Completed
           \<and> (\<forall>z\<in>set zs. status z \<noteq> Completed)
           \<and> resumeFromIndex (findLastCheckpoint task) = Some (int (length ys) + 1)"
proof -
  let ?pl = "agent_pipeline task"
  let ?P = "\<lambda>a. status a = Completed"
  have ne: "filter ?P ?pl \<noteq> []"
    using c by (simp add: filter_empty_conv)
  from last_filter_split [OF ne] obtain ys zs where
    s: "?pl = ys @ last (filter ?P ?pl) # zs" "?P (last (filter ?P ?pl))" "\<forall>z\<in>set zs. \<not> ?P z"
    by blast
  let ?l = "last (filter ?P ?pl)"
  have "distinct (map name (ys @ ?l # zs))" using d s(1) by simp
  then have "name ?l \<notin> name ` set ys" by simp
  then have "\<forall>y\<in>set ys. name y \<noteq> name ?l" by (rule notin_image_all)
  then have "findIndex (\<lambda>a. name a = name ?l) (ys @ ?l # zs) = int (length ys)"
    by (intro findIndex_split) auto
  then have "findIndex (\<lambda>a. name a = name ?l) ?pl = int (length ys)"
    using s(1) by simp
  then have "resumeFromIndex (findLastCheckpoint task) = Some (int (length ys) + 1)"
    using ne by (simp add: findLastCheckpoint_def Let_def)
  with s show ?thesis by blast
qed

lemma remaining_not_completed:
  assumes d: "distinct (map name (agent_pipeline task))"
    and i: "resume_position task \<le> i" "i < length (agent_pipeline task)"
  shows "status (agent_pipeline task ! i) \<noteq> Completed"
proof (cases "\<exists>a\<in>set (agent_pipeline task). status a = Completed")
  case False
  then show ?thesis using i(2) by (metis nth_mem)
next
  case True
  from checkpoint_some_completed [OF d True] obtain ys l zs where
    s: "agent_pipeline task = ys @ l # zs" "\<forall>z\<in>set zs. status z \<noteq> Completed"
       "resumeFromIndex (findLastCheckpoint task) = Some (int (length ys) + 1)"
    by blast
  have r: "resume_position task = length ys + 1"
    using s(3) by (simp add: resume_position_def)
  have "agent_pipeline task ! i = zs ! (i - (length ys + 1))"
    using i r s(1) by (simp add: nth_append)
  moreover have "i - (length ys + 1) < length zs"
    using i r s(1) by simp
  ultimately show ?thesis using s(2) by (metis nth_mem)
qed

lemma findIndex_none: "findIndex P xs = - 1 \<longleftrightarrow> (\<forall>x\<in>set xs. \<not> P x)"
proof (induction xs)
  case Nil
  then show ?case by simp
next
  case (Cons x xs)
  have "- 1 \<le> findIndex P xs" by (rule findIndex_ge)
  with Cons show ?case by (auto simp: Let_def)
qed

lemma remove_first_none: "\<forall>x\<in>set xs. \<not> P x \<Longrightarrow> remove_first P xs = xs"
  by (induction xs) auto

lemma map_remove_first: "map f (remove_first (\<lambda>x. f x = k) xs) = remove1 k (map f xs)"
  by (induction xs) auto

lemma manifest_remove_snd:
  "snd (manifest_remove w s)
     = s\<lparr>current_processing := remove_first (\<lambda>p. work_id p = w) (current_processing s)\<rparr>"
  by (simp add: manifest_remove_def findIndex_none remove_first_none)

lemma markPermanentFailure_fields:
  shows "invoked (markPermanentFailure w s) = invoked s"
    and "delays (markPermanentFailure w s) = delays s"
    and "retries_r (markPermanentFailure w s) = retries_r s"
    and "lastRetry (markPermanentFailure w s) = lastRetry s"
    and "completed (markPermanentFailure w s) = completed s"
    and "queue (markPermanentFailure w s) = queue s"
    and "set (permanentFailures (markPermanentFailure w s)) = insert w (set (permanentFailures s))"
    and "map work_id (current_processing (markPermanentFailure w s))
           = remove1 w (map work_id (current_processing s))"
  by (auto simp: markPermanentFailure_def manifest_remove_snd Let_def map_remove_first)

lemma reset_failed_fields:
  "reset_failed wid task names s = (e, s') \<Longrightarrow>
     frame s s' \<and> invoked s' = invoked s \<and> delays s' = delays s"
proof (induction names arbitrary: s)
  case Nil
  then show ?case by (simp add: frame_refl)
next
  case (Cons an rest)
  show ?case
  proof (cases "\<exists>agent. find (\<lambda>a. name a = an) (agent_pipeline task) = Some agent
                  \<and> status agent = Failed")
    case False
    with Cons.prems have "reset_failed wid task rest s = (e, s')"
      by (auto split: option.splits if_splits)
    then show ?thesis by (rule Cons.IH)
  next
    case True
    obtain y s1 where u: "updateAgent wid an Pending None s = (y, s1)"
      by (cases "updateAgent wid an Pending None s")
    have f1: "frame s s1" and i1: "invoked s1 = invoked s" and d1: "delays s1 = delays s"
      using updateAgent_fields [OF u] by simp_all
    show ?thesis
    proof (cases y)
      case (Some e')
      with Cons.prems True u have "s' = s1" by auto
      then show ?thesis using f1 i1 d1 by simp
    next
      case None
      with Cons.prems True u have "reset_failed wid task rest s1 = (e, s')" by auto
      from Cons.IH [OF this] show ?thesis
        using f1 i1 d1 by (auto intro: frame_trans)
    qed
  qed
qed

lemma retryTask_exceeded:
  assumes "hasExceededRetryLimit opts (work_id task) s"
  shows "retryTask opts env now task s
           = (Inr (PermanentFailure None), markPermanentFailure (work_id task) s)"
  using assms by (simp add: retryTask_def)

lemma retryTask_skipped:
  assumes "\<not> hasExceededRetryLimit opts (work_id task) s"
    and "resumeFromAgent (findLastCheckpoint task) = None"
  shows "retryTask opts env now task s = (Inr SkippedTask, s)"
  using assms by (simp add: retryTask_def)

lemma get_retries_assigned:
  "get_retries (js_assign w (plus_one (or_zero (get_retries obj w))) obj) w
     = Some (plus_one (or_zero (get_retries obj w)))"
  by (simp add: get_retries_def js_assign_def update_conv' object_prototype_names_def
      or_zero_def plus_one_def)

lemma or_zero_Some: "or_zero (Some v) = v"
  by (simp add: or_zero_def)

lemma incrementRetryCount_fst:
  "fst (incrementRetryCount now w s) = plus_one (getRetryCount w s)"
  by (simp add: incrementRetryCount_def getRetryCount_def Let_def get_retries_assigned)

lemma incrementRetryCount_fields:
  shows "getRetryCount w (snd (incrementRetryCount now w s)) = plus_one (getRetryCount w s)"
    and "invoked (snd (incrementRetryCount now w s)) = invoked s"
    and "permanentFailures (snd (incrementRetryCount now w s)) = permanentFailures s"
    and "current_processing (snd (incrementRetryCount now w s)) = current_processing s"
    and "completed (snd (incrementRetryCount now w s)) = completed s"
  by (simp_all add: incrementRetryCount_def getRetryCount_def Let_def get_retries_assigned
      or_zero_Some)

lemma retryTask_run:
  assumes "\<not> hasExceededRetryLimit opts (work_id task) s"
    and "resumeFromAgent (findLastCheckpoint task) \<noteq> None"
  shows "retryTask opts env now task s =
     (let n = plus_one (getRetryCount (work_id task) s);
          s2 = wait (retry_delay opts n) (snd (incrementRetryCount now (work_id task) s));
          remaining = map name (drop (resume_position task) (agent_pipeline task))
      in case reset_failed (work_id task) task remaining s2 of
           (Some e, s3) \<Rightarrow> (Inl e, s3)
         | (None, s3) \<Rightarrow>
             (case executeAgentPipeline env maxRetries_mp (work_id task) remaining s3 of
                (None, s4) \<Rightarrow> (Inr Recovered, s4)
              | (Some e, s4) \<Rightarrow>
                  (if js_ge n (maxRetries opts) then
                     (Inr (PermanentFailure (Some e)), markPermanentFailure (work_id task) s4)
                   else (Inr (FailedAgain n), s4))))"
proof -
  obtain v s1 where i: "incrementRetryCount now (work_id task) s = (v, s1)"
    by (cases "incrementRetryCount now (work_id task) s")
  have v: "v = plus_one (getRetryCount (work_id task) s)"
    using incrementRetryCount_fst [of now "work_id task" s] i by simp
  show ?thesis
    using assms
    by (auto simp: retryTask_def Let_def remaining_is_drop i v split: option.splits)
qed

lemma getRetryCount_cong: "retries_r s' = retries_r s \<Longrightarrow> getRetryCount w s' = getRetryCount w s"
  by (simp add: getRetryCount_def)

lemma frame_work_ids:
  "frame s s' \<Longrightarrow> map work_id (current_processing s') = map work_id (current_processing s)"
proof -
  assume "frame s s'"
  then have "map fst (manifest_shape s') = map fst (manifest_shape s)"
    by (simp add: frame_def)
  then show ?thesis by (simp add: manifest_shape_def comp_def)
qed

lemma retryTask_outcome:
  assumes lt: "\<not> hasExceededRetryLimit opts (work_id task) s"
    and res: "resumeFromAgent (findLastCheckpoint task) \<noteq> None"
    and rf: "reset_failed (work_id task) task
               (map name (drop (resume_position task) (agent_pipeline task)))
               (wait (retry_delay opts (plus_one (getRetryCount (work_id task) s)))
                  (snd (incrementRetryCount now (work_id task) s))) = (None, s3)"
    and ex: "executeAgentPipeline env maxRetries_mp (work_id task)
               (map name (drop (resume_position task) (agent_pipeline task))) s3 = (z, s4)"
  shows "retryTask opts env now task s =
     (case z of
        None \<Rightarrow> (Inr Recovered, s4)
      | Some e \<Rightarrow>
          if js_ge (plus_one (getRetryCount (work_id task) s)) (maxRetries opts)
          then (Inr (PermanentFailure (Some e)), markPermanentFailure (work_id task) s4)
          else (Inr (FailedAgain (plus_one (getRetryCount (work_id task) s))), s4))"
  using rf ex by (cases z) (simp_all add: retryTask_run [OF lt res] Let_def)

text \<open>What a pass leaves behind when the reset goes through and the pipeline fails.\<close>

lemma retryTask_after_failure:
  assumes rf: "reset_failed (work_id task) task
               (map name (drop (resume_position task) (agent_pipeline task)))
               (wait d (snd (incrementRetryCount now (work_id task) s))) = (None, s3)"
    and ex: "executeAgentPipeline env maxRetries_mp (work_id task)
               (map name (drop (resume_position task) (agent_pipeline task))) s3 = (z, s4)"
  shows "getRetryCount (work_id task) s4 = plus_one (getRetryCount (work_id task) s)"
    and "permanentFailures s4 = permanentFailures s"
    and "map work_id (current_processing s4) = map work_id (current_processing s)"
    and "getRetryCount (work_id task) (markPermanentFailure (work_id task) s4)
           = plus_one (getRetryCount (work_id task) s)"
    and "work_id task \<in> set (permanentFailures (markPermanentFailure (work_id task) s4))"
    and "map work_id (current_processing (markPermanentFailure (work_id task) s4))
           = remove1 (work_id task) (map work_id (current_processing s))"
proof -
  let ?w = "work_id task"
  let ?s1 = "snd (incrementRetryCount now ?w s)"
  let ?s2 = "wait d ?s1"
  have f23: "frame ?s2 s3" using reset_failed_fields [OF rf] by simp
  have f34: "frame s3 s4" using ex by (rule executeAgentPipeline_frame)
  have f24: "frame ?s2 s4" using f23 f34 by (rule frame_trans)
  have r2: "retries_r ?s2 = retries_r ?s1" by (simp add: wait_def)
  have r4: "retries_r s4 = retries_r ?s1" using f24 r2 by (simp add: frame_def)
  show c4: "getRetryCount ?w s4 = plus_one (getRetryCount ?w s)"
    using getRetryCount_cong [OF r4, of ?w] by (simp add: incrementRetryCount_fields)
  show p4: "permanentFailures s4 = permanentFailures s"
    using f24 by (simp add: frame_def wait_def incrementRetryCount_fields)
  show w4: "map work_id (current_processing s4) = map work_id (current_processing s)"
    using frame_work_ids [OF f24] by (simp add: wait_def incrementRetryCount_fields)
  show "getRetryCount ?w (markPermanentFailure ?w s4) = plus_one (getRetryCount ?w s)"
    using c4 by (simp add: getRetryCount_def markPermanentFailure_fields)
  show "?w \<in> set (permanentFailures (markPermanentFailure ?w s4))"
    by (simp add: markPermanentFailure_fields)
  show "map work_id (current_processing (markPermanentFailure ?w s4))
           = remove1 ?w (map work_id (current_processing s))"
    using w4 by (simp add: markPermanentFailure_fields)
qed

lemma retryTask_trace:
  assumes "retryTask opts env now task s = (r, s')"
  shows "trace_within (work_id task)
           (set (map name (drop (resume_position task) (agent_pipeline task)))) s s'"
proof -
  let ?w = "work_id task"
  let ?rem = "map name (drop (resume_position task) (agent_pipeline task))"
  have same: "trace_within ?w (set ?rem) s s'" if "invoked s' = invoked s"
    using that by (simp add: trace_within_def)
  show ?thesis
  proof (cases "hasExceededRetryLimit opts ?w s")
    case True
    then have "s' = markPermanentFailure ?w s"
      using assms retryTask_exceeded [of opts task s env now] by simp
    then show ?thesis by (intro same) (simp add: markPermanentFailure_fields)
  next
    case lt: False
    show ?thesis
    proof (cases "resumeFromAgent (findLastCheckpoint task) = None")
      case True
      then have "s' = s" using assms retryTask_skipped [OF lt, of env now] by simp
      then show ?thesis by (intro same) simp
    next
      case False
      let ?n = "plus_one (getRetryCount ?w s)"
      let ?s2 = "wait (retry_delay opts ?n) (snd (incrementRetryCount now ?w s))"
      note unf = retryTask_run [OF lt False, of env now, unfolded Let_def]
      obtain y s3 where rf: "reset_failed ?w task ?rem ?s2 = (y, s3)"
        by (cases "reset_failed ?w task ?rem ?s2")
      have i3: "invoked s3 = invoked s"
        using reset_failed_fields [OF rf]
        by (simp add: wait_def incrementRetryCount_fields)
      show ?thesis
      proof (cases y)
        case (Some e)
        then have "s' = s3" using assms unf rf by simp
        then show ?thesis using i3 by (intro same) simp
      next
        case None
        obtain z s4 where ex: "executeAgentPipeline env maxRetries_mp ?w ?rem s3 = (z, s4)"
          by (cases "executeAgentPipeline env maxRetries_mp ?w ?rem s3")
        have t: "trace_within ?w (set ?rem) s3 s4"
          using ex by (rule executeAgentPipeline_trace)
        have "invoked s' = invoked s4"
          using assms unf rf None ex
          by (cases z) (auto simp: markPermanentFailure_fields split: if_splits)
        then show ?thesis using t i3 by (simp add: trace_within_def)
      qed
    qed
  qed
qed

lemma four_stage_resume:
  assumes "\<exists>k. 0 < k \<and> k \<le> length pl \<and> status (pl ! (k - 1)) = Completed
             \<and> (\<forall>i. k \<le> i \<and> i < length pl \<longrightarrow> status (pl ! i) \<noteq> Completed) \<and> x = Some (int k)"
    and "map status pl = [Completed, Completed, Failed, Pending]"
  shows "x = Some 2"
proof -
  from assms(1) obtain k where k: "0 < k" "k \<le> length pl" "status (pl ! (k - 1)) = Completed"
    "\<forall>i. k \<le> i \<and> i < length pl \<longrightarrow> status (pl ! i) \<noteq> Completed" "x = Some (int k)"
    by blast
  have "length (map status pl) = 4" by (simp add: assms(2))
  then have len: "length pl = 4" by simp
  have st: "\<And>i. i < 4 \<Longrightarrow> status (pl ! i) = [Completed, Completed, Failed, Pending] ! i"
    using assms(2) len by (metis nth_map)
  have s1: "status (pl ! 1) = Completed" using st [of 1] by simp
  have s2: "status (pl ! 2) = Failed" using st [of 2] by simp
  have s3: "status (pl ! 3) = Pending" using st [of 3] by (simp add: numeral_3_eq_3)
  have "k \<noteq> 1" using k(4) s1 len by auto
  moreover have "k \<noteq> 3" using k(3) s2 by auto
  moreover have "k \<noteq> 4" using k(3) s3 by auto
  ultimately have "k = 2" using k(1,2) len by arith
  then show ?thesis using k(5) by simp
qed

lemma in_image_ex: "x \<in> f ` A \<Longrightarrow> \<exists>a\<in>A. f a = x"
  by auto

text \<open>
  C5, as the code has it. For every processing record whose stage names are pairwise
  distinct and in which some stage is completed, \<open>findLastCheckpoint\<close> returns as
  \<open>resumeFromIndex\<close> the index one past the last completed stage; in particular the
  statuses completed, completed, failed, pending give 2. For every record with pairwise
  distinct stage names, whatever \<open>retryTask\<close> returns, the agents it invokes all belong to
  the record's work item and to stages at or after the resume position (index 0 when no
  stage is completed), and none of them is a completed stage of the record.
\<close>

theorem checkpoint_resume_distinct_names:
  "(distinct (map name (agent_pipeline task))
      \<and> (\<exists>a\<in>set (agent_pipeline task). status a = Completed) \<longrightarrow>
      (\<exists>k. resumeFromIndex (findLastCheckpoint task) = Some (int k)
          \<and> 0 < k \<and> k \<le> length (agent_pipeline task)
          \<and> status (agent_pipeline task ! (k - 1)) = Completed
          \<and> (\<forall>i. k \<le> i \<and> i < length (agent_pipeline task) \<longrightarrow>
                 status (agent_pipeline task ! i) \<noteq> Completed)))
   \<and> (distinct (map name (agent_pipeline task))
      \<and> map status (agent_pipeline task) = [Completed, Completed, Failed, Pending] \<longrightarrow>
      resumeFromIndex (findLastCheckpoint task) = Some 2)
   \<and> (distinct (map name (agent_pipeline task))
      \<and> retryTask opts env now task s = (r, s') \<longrightarrow>
      (\<exists>new. invoked s' = invoked s @ new
          \<and> (\<forall>(w, a)\<in>set new. w = work_id task
                \<and> (\<exists>i. resume_position task \<le> i \<and> i < length (agent_pipeline task)
                       \<and> name (agent_pipeline task ! i) = a)
                \<and> (\<forall>e\<in>set (agent_pipeline task). name e = a \<longrightarrow> status e \<noteq> Completed))))"
proof (intro conjI impI)
  let ?pl = "agent_pipeline task"
  have gen: "\<exists>k. resumeFromIndex (findLastCheckpoint task) = Some (int k)
          \<and> 0 < k \<and> k \<le> length ?pl \<and> status (?pl ! (k - 1)) = Completed
          \<and> (\<forall>i. k \<le> i \<and> i < length ?pl \<longrightarrow> status (?pl ! i) \<noteq> Completed)"
    if d: "distinct (map name ?pl)" and c: "\<exists>a\<in>set ?pl. status a = Completed"
  proof -
    from checkpoint_some_completed [OF d c] obtain ys l zs where
      s: "?pl = ys @ l # zs" "status l = Completed" "\<forall>z\<in>set zs. status z \<noteq> Completed"
         "resumeFromIndex (findLastCheckpoint task) = Some (int (length ys) + 1)"
      by blast
    have "resumeFromIndex (findLastCheckpoint task) = Some (int (length ys + 1))"
      using s(4) by simp
    moreover have "length ys + 1 \<le> length ?pl" using s(1) by simp
    moreover have "status (?pl ! (length ys + 1 - 1)) = Completed" using s(1,2) by simp
    moreover have "\<forall>i. length ys + 1 \<le> i \<and> i < length ?pl \<longrightarrow> status (?pl ! i) \<noteq> Completed"
    proof (intro allI impI)
      fix i assume i: "length ys + 1 \<le> i \<and> i < length ?pl"
      then have "?pl ! i = zs ! (i - (length ys + 1))" using s(1) by (simp add: nth_append)
      moreover have "i - (length ys + 1) < length zs" using i s(1) by auto
      ultimately show "status (?pl ! i) \<noteq> Completed" using s(3) by (metis nth_mem)
    qed
    ultimately show ?thesis by (intro exI [of _ "length ys + 1"]) simp
  qed
  {
    assume "distinct (map name ?pl) \<and> (\<exists>a\<in>set ?pl. status a = Completed)"
    then show "\<exists>k. resumeFromIndex (findLastCheckpoint task) = Some (int k)
          \<and> 0 < k \<and> k \<le> length ?pl \<and> status (?pl ! (k - 1)) = Completed
          \<and> (\<forall>i. k \<le> i \<and> i < length ?pl \<longrightarrow> status (?pl ! i) \<noteq> Completed)"
      using gen by blast
  }
  {
    assume a: "distinct (map name ?pl) \<and> map status ?pl = [Completed, Completed, Failed, Pending]"
    then have "Completed \<in> set (map status ?pl)" by simp
    then have "Completed \<in> status ` set ?pl" by simp
    then have "\<exists>a\<in>set ?pl. status a = Completed" by (rule in_image_ex)
    with a gen have "\<exists>k. 0 < k \<and> k \<le> length ?pl \<and> status (?pl ! (k - 1)) = Completed
             \<and> (\<forall>i. k \<le> i \<and> i < length ?pl \<longrightarrow> status (?pl ! i) \<noteq> Completed)
             \<and> resumeFromIndex (findLastCheckpoint task) = Some (int k)"
      by blast
    then show "resumeFromIndex (findLastCheckpoint task) = Some 2"
      using a by (intro four_stage_resume [of ?pl]) simp_all
  }
  {
    assume a: "distinct (map name ?pl) \<and> retryTask opts env now task s = (r, s')"
    then have d: "distinct (map name ?pl)" and run: "retryTask opts env now task s = (r, s')"
      by simp_all
    from retryTask_trace [OF run] obtain new where
      n: "invoked s' = invoked s @ new"
         "set new \<subseteq> {work_id task} \<times> set (map name (drop (resume_position task) ?pl))"
      unfolding trace_within_def by blast
    have "\<forall>(w, a)\<in>set new. w = work_id task
                \<and> (\<exists>i. resume_position task \<le> i \<and> i < length ?pl \<and> name (?pl ! i) = a)
                \<and> (\<forall>e\<in>set ?pl. name e = a \<longrightarrow> status e \<noteq> Completed)"
    proof (intro ballI, clarify)
      fix w a assume "(w, a) \<in> set new"
      with n(2) have w: "w = work_id task"
        and a: "a \<in> set (map name (drop (resume_position task) ?pl))" by auto
      from a obtain j where j: "j < length (drop (resume_position task) ?pl)"
        "a = name (drop (resume_position task) ?pl ! j)"
        by (auto simp: in_set_conv_nth)
      let ?i = "resume_position task + j"
      have i: "resume_position task \<le> ?i" "?i < length ?pl" "name (?pl ! ?i) = a"
        using j by simp_all
      have nc: "status (?pl ! ?i) \<noteq> Completed"
        using d i(1,2) by (rule remaining_not_completed)
      have "\<forall>e\<in>set ?pl. name e = a \<longrightarrow> status e \<noteq> Completed"
      proof (intro ballI impI)
        fix e assume e: "e \<in> set ?pl" "name e = a"
        then obtain m where m: "m < length ?pl" "?pl ! m = e"
          by (auto simp: in_set_conv_nth)
        have eqn: "map name ?pl ! m = map name ?pl ! ?i"
          using m i e(2) by simp
        have lm: "m < length (map name ?pl)" "?i < length (map name ?pl)"
          using m(1) i(2) by simp_all
        have "m = ?i"
          using eqn unfolding nth_eq_iff_index_eq [OF d lm] .
        then show "status e \<noteq> Completed" using nc m(2) by simp
      qed
      with w i show "w = work_id task
                \<and> (\<exists>i. resume_position task \<le> i \<and> i < length ?pl \<and> name (?pl ! i) = a)
                \<and> (\<forall>e\<in>set ?pl. name e = a \<longrightarrow> status e \<noteq> Completed)"
        by blast
    qed
    with n(1) show "\<exists>new. invoked s' = invoked s @ new
          \<and> (\<forall>(w, a)\<in>set new. w = work_id task
                \<and> (\<exists>i. resume_position task \<le> i \<and> i < length ?pl \<and> name (?pl ! i) = a)
                \<and> (\<forall>e\<in>set ?pl. name e = a \<longrightarrow> status e \<noteq> Completed))"
      by blast
  }
qed


theorem checkpoint_resume_distinct_names_witness:
  "distinct (map name (agent_pipeline failed_task))
   \<and> map status (agent_pipeline failed_task) = [Completed, Completed, Failed, Pending]
   \<and> resumeFromIndex (findLastCheckpoint failed_task) = Some 2
   \<and> (\<exists>new. invoked (snd (retryTask default_options all_up 50 failed_task (retry_state 0)))
               = invoked (retry_state 0) @ new
          \<and> (\<forall>(w, a)\<in>set new. \<forall>e\<in>set (agent_pipeline failed_task).
                 name e = a \<longrightarrow> status e \<noteq> Completed))"
proof -
  let ?run = "retryTask default_options all_up 50 failed_task (retry_state 0)"
  have d: "distinct (map name (agent_pipeline failed_task))" by code_simp
  have m: "map status (agent_pipeline failed_task) = [Completed, Completed, Failed, Pending]"
    by code_simp
  have r: "?run = (fst ?run, snd ?run)" by simp
  note inst = checkpoint_resume_distinct_names [of failed_task default_options all_up 50
      "retry_state 0" "fst ?run" "snd ?run"]
  from inst d m have two: "resumeFromIndex (findLastCheckpoint failed_task) = Some 2" by blast
  from inst d r have "\<exists>new. invoked (snd ?run) = invoked (retry_state 0) @ new
          \<and> (\<forall>(w, a)\<in>set new. w = work_id failed_task
                \<and> (\<exists>i. resume_position failed_task \<le> i \<and> i < length (agent_pipeline failed_task)
                       \<and> name (agent_pipeline failed_task ! i) = a)
                \<and> (\<forall>e\<in>set (agent_pipeline failed_task). name e = a \<longrightarrow> status e \<noteq> Completed))"
    by blast
  then obtain new where n: "invoked (snd ?run) = invoked (retry_state 0) @ new"
    "\<forall>(w, a)\<in>set new. w = work_id failed_task
                \<and> (\<exists>i. resume_position failed_task \<le> i \<and> i < length (agent_pipeline failed_task)
                       \<and> name (agent_pipeline failed_task ! i) = a)
                \<and> (\<forall>e\<in>set (agent_pipeline failed_task). name e = a \<longrightarrow> status e \<noteq> Completed)"
    by blast
  from n(2) have "\<forall>(w, a)\<in>set new. \<forall>e\<in>set (agent_pipeline failed_task).
                 name e = a \<longrightarrow> status e \<noteq> Completed"
    by (auto simp: case_prod_beta)
  with n(1) have tr: "\<exists>new. invoked (snd ?run) = invoked (retry_state 0) @ new
          \<and> (\<forall>(w, a)\<in>set new. \<forall>e\<in>set (agent_pipeline failed_task).
                 name e = a \<longrightarrow> status e \<noteq> Completed)"
    by blast
  show ?thesis by (intro conjI) (fact d, fact m, fact two, fact tr)
qed

text \<open>
  C5, as the specification states it, fails on two records. With no completed stage the returned
  object has no \<open>resumeFromIndex\<close> at all (only \<open>resumeFromAgent\<close> names the first stage).
  With the statuses completed, pending, completed, pending where the first and third stage
  bear the same name, \<open>resumeFromIndex\<close> is 1, not 3, and the agents handed to the
  executor include the completed stage.
\<close>

theorem checkpoint_undefined_or_duplicate:
  "map status (agent_pipeline pending_task) = [Pending, Pending]
   \<and> resumeFromIndex (findLastCheckpoint pending_task) = None
   \<and> resumeFromAgent (findLastCheckpoint pending_task) = Some ''normalization''
   \<and> map status (agent_pipeline twice_task) = [Completed, Pending, Completed, Pending]
   \<and> resumeFromIndex (findLastCheckpoint twice_task) = Some 1
   \<and> map name (slice_from (resumeFromIndex (findLastCheckpoint twice_task))
                  (agent_pipeline twice_task))
       = [''linking'', ''normalization'', ''filing'']"
  by code_simp

subsection \<open>Runs on the example states\<close>

lemma retried_state_ledger:
  "current_processing retried_state =
     [\<lparr>work_id = ''wq-1'', file_path = ''a.md'', started_at = 0,
       agent_pipeline = [mk_agent ''normalization'' InProgress, mk_agent ''filing'' Pending],
       errors = [], retries = 3, retry_count = None\<rparr>]"
  by code_simp

text \<open>
  C6 on the code. A record whose \<open>retries\<close> counter, the one the executor increments, has
  reached \<open>maxRetries\<close> and that has no failed stage is not returned by
  \<open>detectFailedTasks\<close>: the detection reads the key \<open>retry_count\<close>, which the manifest
  never writes.
\<close>

theorem detectFailedTasks_misses_retries:
  "map retries (current_processing retried_state) = [3]
   \<and> map retry_count (current_processing retried_state) = [None]
   \<and> maxRetries default_options = 3
   \<and> detectFailedTasks default_options 10 retried_state = []"
  by (simp add: retried_state_ledger detectFailedTasks_def is_failed_task_def
      default_options_def mk_agent_def)

text \<open>
  C1 on the code. When the pipeline of a dispatched item ends with a failed stage,
  \<open>processNext\<close> removes the item's record from the manifest: afterwards the item is
  neither in the manifest nor in the queue nor in the completion log.
\<close>

theorem processNext_failure_removes_record:
  "fst (processNext all_down True 20 queue_BA)
     = Inr (ProcessFailed ''wq-2'' (AgentFailed ''normalization''))
   \<and> current_processing (snd (processNext all_down True 20 queue_BA)) = []
   \<and> queue (snd (processNext all_down True 20 queue_BA)) = [item_B]
   \<and> completed (snd (processNext all_down True 20 queue_BA)) = []"
  by code_simp


lemma failed_task_resumable: "resumeFromAgent (findLastCheckpoint failed_task) \<noteq> None"
  by code_simp

lemma remaining_agents_drop:
  "remaining_agents task = map name (drop (resume_position task) (agent_pipeline task))"
  by (simp add: remaining_agents_def remaining_is_drop)

lemma failed_task_reset:
  assumes "fst (reset_failed (work_id failed_task) failed_task
            (map name (drop (resume_position failed_task) (agent_pipeline failed_task)))
            (wait d (snd (incrementRetryCount 50 (work_id failed_task) (retry_state n))))) = None"
    and "retry_delay default_options
           (plus_one (getRetryCount (work_id failed_task) (retry_state n))) = d"
  shows "reset_failed (work_id failed_task) failed_task
            (map name (drop (resume_position failed_task) (agent_pipeline failed_task)))
            (wait (retry_delay default_options
                     (plus_one (getRetryCount (work_id failed_task) (retry_state n))))
               (snd (incrementRetryCount 50 (work_id failed_task) (retry_state n))))
          = (None, retry_start d n)"
  unfolding assms(2) retry_start_def using assms(1) by (metis prod.collapse)

lemma failed_task_run:
  assumes "fst (executeAgentPipeline env maxRetries_mp (work_id failed_task)
            (map name (drop (resume_position failed_task) (agent_pipeline failed_task)))
            (retry_start d n)) = z"
  shows "executeAgentPipeline env maxRetries_mp (work_id failed_task)
            (map name (drop (resume_position failed_task) (agent_pipeline failed_task)))
            (retry_start d n) = (z, retry_end env d n)"
  using assms unfolding retry_end_def by (metis prod.collapse)

lemma max_3: "maxRetries default_options = 3"
  by (simp add: default_options_def)

lemma count_0: "getRetryCount (work_id failed_task) (retry_state 0) = Number 0"
  by code_simp

lemma count_2: "getRetryCount (work_id failed_task) (retry_state 2) = Number 2"
  by code_simp

lemma count_3: "getRetryCount (work_id failed_task) (retry_state 3) = Number 3"
  by code_simp

lemma below_0: "\<not> hasExceededRetryLimit default_options (work_id failed_task) (retry_state 0)"
  by (simp add: hasExceededRetryLimit_def count_0 js_ge_def max_3)

lemma below_2: "\<not> hasExceededRetryLimit default_options (work_id failed_task) (retry_state 2)"
  by (simp add: hasExceededRetryLimit_def count_2 js_ge_def max_3)

lemma delay_0:
  "retry_delay default_options
     (plus_one (getRetryCount (work_id failed_task) (retry_state 0))) = 2000"
  by (simp add: count_0 plus_one_def retry_delay_def default_options_def)

lemma delay_2:
  "retry_delay default_options
     (plus_one (getRetryCount (work_id failed_task) (retry_state 2))) = 8000"
  by (simp add: count_2 plus_one_def retry_delay_def default_options_def)

lemma reset_0: "fst (reset_failed (work_id failed_task) failed_task
            (map name (drop (resume_position failed_task) (agent_pipeline failed_task)))
            (wait 2000 (snd (incrementRetryCount 50 (work_id failed_task) (retry_state 0)))))
          = None"
  by code_simp

lemma reset_2: "fst (reset_failed (work_id failed_task) failed_task
            (map name (drop (resume_position failed_task) (agent_pipeline failed_task)))
            (wait 8000 (snd (incrementRetryCount 50 (work_id failed_task) (retry_state 2)))))
          = None"
  by code_simp

lemma down_0: "fst (executeAgentPipeline linking_down maxRetries_mp (work_id failed_task)
            (map name (drop (resume_position failed_task) (agent_pipeline failed_task)))
            (retry_start 2000 0)) = Some (AgentFailed ''linking'')"
  by code_simp

lemma down_2: "fst (executeAgentPipeline linking_down maxRetries_mp (work_id failed_task)
            (map name (drop (resume_position failed_task) (agent_pipeline failed_task)))
            (retry_start 8000 2)) = Some (AgentFailed ''linking'')"
  by code_simp

lemma up_0: "fst (executeAgentPipeline all_up maxRetries_mp (work_id failed_task)
            (map name (drop (resume_position failed_task) (agent_pipeline failed_task)))
            (retry_start 2000 0)) = None"
  by code_simp

lemma retry_down_0:
  "retryTask default_options linking_down 50 failed_task (retry_state 0)
     = (Inr (FailedAgain (Number 1)), retry_end linking_down 2000 0)"
  using retryTask_outcome [OF below_0 failed_task_resumable
      failed_task_reset [OF reset_0 delay_0] failed_task_run [OF down_0]]
  by (simp add: count_0 plus_one_def js_ge_def max_3)

lemma retry_down_2:
  "retryTask default_options linking_down 50 failed_task (retry_state 2)
     = (Inr (PermanentFailure (Some (AgentFailed ''linking''))),
        markPermanentFailure (work_id failed_task) (retry_end linking_down 8000 2))"
  using retryTask_outcome [OF below_2 failed_task_resumable
      failed_task_reset [OF reset_2 delay_2] failed_task_run [OF down_2]]
  by (simp add: count_2 plus_one_def js_ge_def max_3)

lemma retry_up_0:
  "retryTask default_options all_up 50 failed_task (retry_state 0)
     = (Inr Recovered, retry_end all_up 2000 0)"
  using retryTask_outcome [OF below_0 failed_task_resumable
      failed_task_reset [OF reset_0 delay_0] failed_task_run [OF up_0]]
  by simp

lemma inherited_count: "getRetryCount (work_id inherited_task) inherited_state = NonNumeric"
  by code_simp

lemma inherited_resumable: "resumeFromAgent (findLastCheckpoint inherited_task) \<noteq> None"
  by code_simp

lemma inherited_delay: "retry_delay default_options NonNumeric = 1"
  by (simp add: retry_delay_def default_options_def)

lemma inherited_reset:
  "fst (reset_failed (work_id inherited_task) inherited_task (remaining_agents inherited_task)
          (wait 1 (snd (incrementRetryCount 50 (work_id inherited_task) inherited_state))))
     = None"
  by code_simp

lemma inherited_down:
  "fst (executeAgentPipeline linking_down maxRetries_mp (work_id inherited_task)
          (remaining_agents inherited_task) inherited_start) = Some (AgentFailed ''linking'')"
  by code_simp

text \<open>
  C3, as the code has it. Take a pass of \<open>retryTask\<close> over an item that can be resumed, in
  which the reset of the failed stages goes through and the pipeline fails again. If the
  item's counter is a number \<open>n\<close> below \<open>maxRetries\<close>, the counter becomes \<open>n + 1\<close>, which
  does not exceed \<open>maxRetries\<close>; when \<open>n + 1\<close> equals \<open>maxRetries\<close> the item is quarantined in
  that same pass (the pass returns a permanent failure with the error of the pipeline, the
  item is in \<open>permanentFailures\<close>, its record is removed), and when \<open>n + 1\<close> is below
  \<open>maxRetries\<close> the pass returns failed with the retry count \<open>n + 1\<close> and leaves the permanent
  failures and the records of the manifest as they were. An item whose counter is a number
  at \<open>maxRetries\<close> or above when a pass starts is quarantined by the threshold check, with no
  further increment. If the counter is not a number (the work id is the name of a member
  of \<open>Object.prototype\<close>), the pass returns failed, the counter is still not a number, and
  the item is not quarantined.
\<close>

theorem retryTask_counts_and_quarantines:
  "(getRetryCount (work_id task) s = Number n \<and> n < maxRetries opts
      \<and> resumeFromAgent (findLastCheckpoint task) \<noteq> None
      \<and> reset_failed (work_id task) task (remaining_agents task)
           (wait (retry_delay opts (Number (n + 1)))
              (snd (incrementRetryCount now (work_id task) s))) = (None, s3)
      \<and> executeAgentPipeline env maxRetries_mp (work_id task) (remaining_agents task) s3
           = (Some e, s4) \<longrightarrow>
        retryTask opts env now task s
          = (if n + 1 = maxRetries opts
             then (Inr (PermanentFailure (Some e)), markPermanentFailure (work_id task) s4)
             else (Inr (FailedAgain (Number (n + 1))), s4))
      \<and> getRetryCount (work_id task) (snd (retryTask opts env now task s)) = Number (n + 1)
      \<and> n + 1 \<le> maxRetries opts
      \<and> (n + 1 = maxRetries opts \<longrightarrow>
            work_id task \<in> set (permanentFailures (snd (retryTask opts env now task s)))
            \<and> map work_id (current_processing (snd (retryTask opts env now task s)))
                = remove1 (work_id task) (map work_id (current_processing s)))
      \<and> (n + 1 < maxRetries opts \<longrightarrow>
            permanentFailures (snd (retryTask opts env now task s)) = permanentFailures s
            \<and> map work_id (current_processing (snd (retryTask opts env now task s)))
                = map work_id (current_processing s)))
   \<and> (getRetryCount (work_id task) s = Number n \<and> maxRetries opts \<le> n \<longrightarrow>
        retryTask opts env now task s
          = (Inr (PermanentFailure None), markPermanentFailure (work_id task) s)
      \<and> getRetryCount (work_id task) (markPermanentFailure (work_id task) s) = Number n
      \<and> work_id task \<in> set (permanentFailures (markPermanentFailure (work_id task) s))
      \<and> map work_id (current_processing (markPermanentFailure (work_id task) s))
          = remove1 (work_id task) (map work_id (current_processing s)))
   \<and> (getRetryCount (work_id task) s = NonNumeric
      \<and> resumeFromAgent (findLastCheckpoint task) \<noteq> None
      \<and> reset_failed (work_id task) task (remaining_agents task)
           (wait (retry_delay opts NonNumeric)
              (snd (incrementRetryCount now (work_id task) s))) = (None, s3)
      \<and> executeAgentPipeline env maxRetries_mp (work_id task) (remaining_agents task) s3
           = (Some e, s4) \<longrightarrow>
        retryTask opts env now task s = (Inr (FailedAgain NonNumeric), s4)
      \<and> getRetryCount (work_id task) s4 = NonNumeric
      \<and> \<not> hasExceededRetryLimit opts (work_id task) s4
      \<and> permanentFailures s4 = permanentFailures s
      \<and> map work_id (current_processing s4) = map work_id (current_processing s))"
proof -
  let ?w = "work_id task"
  let ?run = "retryTask opts env now task s"
  let ?rem = "map name (drop (resume_position task) (agent_pipeline task))"
  let ?s1 = "snd (incrementRetryCount now ?w s)"
  let ?A1 = "getRetryCount ?w s = Number n \<and> n < maxRetries opts
      \<and> resumeFromAgent (findLastCheckpoint task) \<noteq> None
      \<and> reset_failed ?w task (remaining_agents task)
           (wait (retry_delay opts (Number (n + 1))) ?s1) = (None, s3)
      \<and> executeAgentPipeline env maxRetries_mp ?w (remaining_agents task) s3 = (Some e, s4)"
  let ?b1 = "?run = (if n + 1 = maxRetries opts
             then (Inr (PermanentFailure (Some e)), markPermanentFailure ?w s4)
             else (Inr (FailedAgain (Number (n + 1))), s4))"
  let ?b2 = "getRetryCount ?w (snd ?run) = Number (n + 1)"
  let ?b3 = "n + 1 \<le> maxRetries opts"
  let ?b4 = "n + 1 = maxRetries opts \<longrightarrow>
            ?w \<in> set (permanentFailures (snd ?run))
            \<and> map work_id (current_processing (snd ?run))
                = remove1 ?w (map work_id (current_processing s))"
  let ?b5 = "n + 1 < maxRetries opts \<longrightarrow>
            permanentFailures (snd ?run) = permanentFailures s
            \<and> map work_id (current_processing (snd ?run)) = map work_id (current_processing s)"
  have part1: "?A1 \<longrightarrow> ?b1 \<and> ?b2 \<and> ?b3 \<and> ?b4 \<and> ?b5"
  proof (rule impI)
    assume a: ?A1
    then have c: "getRetryCount ?w s = Number n" and lt: "n < maxRetries opts"
      and res: "resumeFromAgent (findLastCheckpoint task) \<noteq> None"
      and rf: "reset_failed ?w task (remaining_agents task)
           (wait (retry_delay opts (Number (n + 1))) ?s1) = (None, s3)"
      and ex: "executeAgentPipeline env maxRetries_mp ?w (remaining_agents task) s3
           = (Some e, s4)"
      by simp_all
    have below: "\<not> hasExceededRetryLimit opts ?w s"
      using c lt by (simp add: hasExceededRetryLimit_def js_ge_def)
    have p: "plus_one (getRetryCount ?w s) = Number (n + 1)"
      using c by (simp add: plus_one_def)
    have rf': "reset_failed ?w task ?rem
           (wait (retry_delay opts (plus_one (getRetryCount ?w s))) ?s1) = (None, s3)"
      using rf unfolding p remaining_agents_drop .
    have ex': "executeAgentPipeline env maxRetries_mp ?w ?rem s3 = (Some e, s4)"
      using ex unfolding remaining_agents_drop .
    note out = retryTask_outcome [OF below res rf' ex', unfolded p]
    note aft = retryTask_after_failure [OF rf' ex', unfolded p]
    have ge: "js_ge (Number (n + 1)) (maxRetries opts) \<longleftrightarrow> n + 1 = maxRetries opts"
      using lt by (auto simp: js_ge_def)
    have b1: ?b1 using out unfolding ge option.case .
    have b2: ?b2 using aft(1) aft(4) by (simp add: b1)
    have b3: ?b3 using lt by simp
    have b4: ?b4 using aft(5) aft(6) by (simp add: b1)
    have b5: ?b5 using aft(2) aft(3) by (simp add: b1)
    show "?b1 \<and> ?b2 \<and> ?b3 \<and> ?b4 \<and> ?b5"
      by (intro conjI) (fact b1, fact b2, fact b3, fact b4, fact b5)
  qed
  have part2: "getRetryCount ?w s = Number n \<and> maxRetries opts \<le> n \<longrightarrow>
        ?run = (Inr (PermanentFailure None), markPermanentFailure ?w s)
      \<and> getRetryCount ?w (markPermanentFailure ?w s) = Number n
      \<and> ?w \<in> set (permanentFailures (markPermanentFailure ?w s))
      \<and> map work_id (current_processing (markPermanentFailure ?w s))
          = remove1 ?w (map work_id (current_processing s))"
  proof (rule impI)
    assume a: "getRetryCount ?w s = Number n \<and> maxRetries opts \<le> n"
    then have over: "hasExceededRetryLimit opts ?w s"
      by (simp add: hasExceededRetryLimit_def js_ge_def)
    have c1: "?run = (Inr (PermanentFailure None), markPermanentFailure ?w s)"
      using over by (rule retryTask_exceeded)
    have c2: "getRetryCount ?w (markPermanentFailure ?w s) = Number n"
      using a by (simp add: getRetryCount_def markPermanentFailure_fields)
    have c3: "?w \<in> set (permanentFailures (markPermanentFailure ?w s))"
      by (simp add: markPermanentFailure_fields)
    have c4: "map work_id (current_processing (markPermanentFailure ?w s))
          = remove1 ?w (map work_id (current_processing s))"
      by (rule markPermanentFailure_fields)
    show "?run = (Inr (PermanentFailure None), markPermanentFailure ?w s)
      \<and> getRetryCount ?w (markPermanentFailure ?w s) = Number n
      \<and> ?w \<in> set (permanentFailures (markPermanentFailure ?w s))
      \<and> map work_id (current_processing (markPermanentFailure ?w s))
          = remove1 ?w (map work_id (current_processing s))"
      by (intro conjI) (fact c1, fact c2, fact c3, fact c4)
  qed
  let ?A3 = "getRetryCount ?w s = NonNumeric
      \<and> resumeFromAgent (findLastCheckpoint task) \<noteq> None
      \<and> reset_failed ?w task (remaining_agents task)
           (wait (retry_delay opts NonNumeric) ?s1) = (None, s3)
      \<and> executeAgentPipeline env maxRetries_mp ?w (remaining_agents task) s3 = (Some e, s4)"
  have part3: "?A3 \<longrightarrow>
        ?run = (Inr (FailedAgain NonNumeric), s4)
      \<and> getRetryCount ?w s4 = NonNumeric
      \<and> \<not> hasExceededRetryLimit opts ?w s4
      \<and> permanentFailures s4 = permanentFailures s
      \<and> map work_id (current_processing s4) = map work_id (current_processing s)"
  proof (rule impI)
    assume a: ?A3
    then have c: "getRetryCount ?w s = NonNumeric"
      and res: "resumeFromAgent (findLastCheckpoint task) \<noteq> None"
      and rf: "reset_failed ?w task (remaining_agents task)
           (wait (retry_delay opts NonNumeric) ?s1) = (None, s3)"
      and ex: "executeAgentPipeline env maxRetries_mp ?w (remaining_agents task) s3
           = (Some e, s4)"
      by simp_all
    have below: "\<not> hasExceededRetryLimit opts ?w s"
      using c by (simp add: hasExceededRetryLimit_def js_ge_def)
    have p: "plus_one (getRetryCount ?w s) = NonNumeric"
      using c by (simp add: plus_one_def)
    have rf': "reset_failed ?w task ?rem
           (wait (retry_delay opts (plus_one (getRetryCount ?w s))) ?s1) = (None, s3)"
      using rf unfolding p remaining_agents_drop .
    have ex': "executeAgentPipeline env maxRetries_mp ?w ?rem s3 = (Some e, s4)"
      using ex unfolding remaining_agents_drop .
    note out = retryTask_outcome [OF below res rf' ex', unfolded p]
    note aft = retryTask_after_failure [OF rf' ex', unfolded p]
    have nge: "\<not> js_ge NonNumeric (maxRetries opts)" by (simp add: js_ge_def)
    have d1: "?run = (Inr (FailedAgain NonNumeric), s4)"
      using out nge by simp
    have d2: "getRetryCount ?w s4 = NonNumeric" by (rule aft(1))
    have d3: "\<not> hasExceededRetryLimit opts ?w s4"
      using d2 by (simp add: hasExceededRetryLimit_def js_ge_def)
    have d4: "permanentFailures s4 = permanentFailures s" by (rule aft(2))
    have d5: "map work_id (current_processing s4) = map work_id (current_processing s)"
      by (rule aft(3))
    show "?run = (Inr (FailedAgain NonNumeric), s4)
      \<and> getRetryCount ?w s4 = NonNumeric
      \<and> \<not> hasExceededRetryLimit opts ?w s4
      \<and> permanentFailures s4 = permanentFailures s
      \<and> map work_id (current_processing s4) = map work_id (current_processing s)"
      by (intro conjI) (fact d1, fact d2, fact d3, fact d4, fact d5)
  qed
  show ?thesis by (intro conjI) (fact part1, fact part2, fact part3)
qed

theorem retryTask_counts_and_quarantines_witness:
  "getRetryCount (work_id failed_task) (retry_state 2) = Number 2
   \<and> maxRetries default_options = 3
   \<and> retryTask default_options linking_down 50 failed_task (retry_state 2)
       = (Inr (PermanentFailure (Some (AgentFailed ''linking''))),
          markPermanentFailure (work_id failed_task) (retry_end linking_down 8000 2))
   \<and> getRetryCount (work_id failed_task)
        (snd (retryTask default_options linking_down 50 failed_task (retry_state 2)))
       = Number 3
   \<and> work_id failed_task
       \<in> set (permanentFailures
                (snd (retryTask default_options linking_down 50 failed_task (retry_state 2))))
   \<and> map work_id (current_processing
        (snd (retryTask default_options linking_down 50 failed_task (retry_state 2)))) = []
   \<and> getRetryCount (work_id failed_task) (retry_state 0) = Number 0
   \<and> retryTask default_options linking_down 50 failed_task (retry_state 0)
       = (Inr (FailedAgain (Number 1)), retry_end linking_down 2000 0)
   \<and> getRetryCount (work_id failed_task)
        (snd (retryTask default_options linking_down 50 failed_task (retry_state 0)))
       = Number 1
   \<and> permanentFailures
        (snd (retryTask default_options linking_down 50 failed_task (retry_state 0)))
       = permanentFailures (retry_state 0)
   \<and> getRetryCount (work_id failed_task) (retry_state 3) = Number 3
   \<and> retryTask default_options linking_down 50 failed_task (retry_state 3)
       = (Inr (PermanentFailure None),
          markPermanentFailure (work_id failed_task) (retry_state 3))
   \<and> work_id failed_task
       \<in> set (permanentFailures (markPermanentFailure (work_id failed_task) (retry_state 3)))
   \<and> getRetryCount (work_id inherited_task) inherited_state = NonNumeric
   \<and> retryTask default_options linking_down 50 inherited_task inherited_state
       = (Inr (FailedAgain NonNumeric), inherited_end)
   \<and> getRetryCount (work_id inherited_task) inherited_end = NonNumeric
   \<and> permanentFailures inherited_end = permanentFailures inherited_state"
proof -
  let ?w = "work_id failed_task"
  let ?run2 = "retryTask default_options linking_down 50 failed_task (retry_state 2)"
  let ?run0 = "retryTask default_options linking_down 50 failed_task (retry_state 0)"
  let ?e2 = "retry_end linking_down 8000 2"
  let ?e0 = "retry_end linking_down 2000 0"
  let ?err = "AgentFailed ''linking''"
  have ids: "map work_id (current_processing (retry_state 2)) = [?w]" by code_simp
  have rf2: "reset_failed ?w failed_task (remaining_agents failed_task)
           (wait (retry_delay default_options (Number (2 + 1)))
              (snd (incrementRetryCount 50 ?w (retry_state 2)))) = (None, retry_start 8000 2)"
    using failed_task_reset [OF reset_2 delay_2]
    by (simp add: count_2 plus_one_def remaining_agents_drop)
  have ex2: "executeAgentPipeline linking_down maxRetries_mp ?w (remaining_agents failed_task)
               (retry_start 8000 2) = (Some ?err, ?e2)"
    using failed_task_run [OF down_2] by (simp add: remaining_agents_drop)
  have hyp2: "getRetryCount ?w (retry_state 2) = Number 2 \<and> 2 < maxRetries default_options
      \<and> resumeFromAgent (findLastCheckpoint failed_task) \<noteq> None
      \<and> reset_failed ?w failed_task (remaining_agents failed_task)
           (wait (retry_delay default_options (Number (2 + 1)))
              (snd (incrementRetryCount 50 ?w (retry_state 2)))) = (None, retry_start 8000 2)
      \<and> executeAgentPipeline linking_down maxRetries_mp ?w (remaining_agents failed_task)
           (retry_start 8000 2) = (Some ?err, ?e2)"
    by (intro conjI) (fact count_2, simp add: max_3, fact failed_task_resumable, fact rf2,
        fact ex2)
  note inst2 = retryTask_counts_and_quarantines [where task = failed_task
      and s = "retry_state 2" and n = 2 and opts = default_options and now = 50
      and ?s3.0 = "retry_start 8000 2" and env = linking_down and e = ?err and ?s4.0 = ?e2,
      THEN conjunct1, THEN mp, OF hyp2]
  have a1: "?run2 = (Inr (PermanentFailure (Some ?err)), markPermanentFailure ?w ?e2)"
    using inst2 [THEN conjunct1] by (simp add: max_3)
  have a2: "getRetryCount ?w (snd ?run2) = Number 3"
    using inst2 [THEN conjunct2, THEN conjunct1] by simp
  have a3: "?w \<in> set (permanentFailures (snd ?run2))"
    and a4: "map work_id (current_processing (snd ?run2)) = []"
    using inst2 [THEN conjunct2, THEN conjunct2, THEN conjunct2, THEN conjunct1] ids
    by (simp_all add: max_3)
  have rf0: "reset_failed ?w failed_task (remaining_agents failed_task)
           (wait (retry_delay default_options (Number (0 + 1)))
              (snd (incrementRetryCount 50 ?w (retry_state 0)))) = (None, retry_start 2000 0)"
    using failed_task_reset [OF reset_0 delay_0]
    by (simp add: count_0 plus_one_def remaining_agents_drop)
  have ex0: "executeAgentPipeline linking_down maxRetries_mp ?w (remaining_agents failed_task)
               (retry_start 2000 0) = (Some ?err, ?e0)"
    using failed_task_run [OF down_0] by (simp add: remaining_agents_drop)
  have hyp0: "getRetryCount ?w (retry_state 0) = Number 0 \<and> 0 < maxRetries default_options
      \<and> resumeFromAgent (findLastCheckpoint failed_task) \<noteq> None
      \<and> reset_failed ?w failed_task (remaining_agents failed_task)
           (wait (retry_delay default_options (Number (0 + 1)))
              (snd (incrementRetryCount 50 ?w (retry_state 0)))) = (None, retry_start 2000 0)
      \<and> executeAgentPipeline linking_down maxRetries_mp ?w (remaining_agents failed_task)
           (retry_start 2000 0) = (Some ?err, ?e0)"
    by (intro conjI) (fact count_0, simp add: max_3, fact failed_task_resumable, fact rf0,
        fact ex0)
  note inst0 = retryTask_counts_and_quarantines [where task = failed_task
      and s = "retry_state 0" and n = 0 and opts = default_options and now = 50
      and ?s3.0 = "retry_start 2000 0" and env = linking_down and e = ?err and ?s4.0 = ?e0,
      THEN conjunct1, THEN mp, OF hyp0]
  have b1: "?run0 = (Inr (FailedAgain (Number 1)), ?e0)"
    using inst0 [THEN conjunct1] by (simp add: max_3)
  have b2: "getRetryCount ?w (snd ?run0) = Number 1"
    using inst0 [THEN conjunct2, THEN conjunct1] by simp
  have b3: "permanentFailures (snd ?run0) = permanentFailures (retry_state 0)"
    using inst0 [THEN conjunct2, THEN conjunct2, THEN conjunct2, THEN conjunct2]
    by (simp add: max_3)
  have hyp3: "getRetryCount ?w (retry_state 3) = Number 3 \<and> maxRetries default_options \<le> 3"
    by (simp add: count_3 max_3)
  note inst3 = retryTask_counts_and_quarantines [where task = failed_task
      and s = "retry_state 3" and n = 3 and opts = default_options and now = 50
      and env = linking_down,
      THEN conjunct2, THEN conjunct1, THEN mp, OF hyp3]
  have c1: "retryTask default_options linking_down 50 failed_task (retry_state 3)
       = (Inr (PermanentFailure None), markPermanentFailure ?w (retry_state 3))"
    using inst3 by (rule conjunct1)
  have c2: "?w \<in> set (permanentFailures (markPermanentFailure ?w (retry_state 3)))"
    using inst3 [THEN conjunct2, THEN conjunct2, THEN conjunct1] .
  let ?v = "work_id inherited_task"
  have rfi: "reset_failed ?v inherited_task (remaining_agents inherited_task)
           (wait (retry_delay default_options NonNumeric)
              (snd (incrementRetryCount 50 ?v inherited_state))) = (None, inherited_start)"
    unfolding inherited_delay inherited_start_def using inherited_reset
    by (metis prod.collapse)
  have exi: "executeAgentPipeline linking_down maxRetries_mp ?v (remaining_agents inherited_task)
               inherited_start = (Some ?err, inherited_end)"
    unfolding inherited_end_def using inherited_down by (metis prod.collapse)
  have hypi: "getRetryCount ?v inherited_state = NonNumeric
      \<and> resumeFromAgent (findLastCheckpoint inherited_task) \<noteq> None
      \<and> reset_failed ?v inherited_task (remaining_agents inherited_task)
           (wait (retry_delay default_options NonNumeric)
              (snd (incrementRetryCount 50 ?v inherited_state))) = (None, inherited_start)
      \<and> executeAgentPipeline linking_down maxRetries_mp ?v (remaining_agents inherited_task)
           inherited_start = (Some ?err, inherited_end)"
    by (intro conjI) (fact inherited_count, fact inherited_resumable, fact rfi, fact exi)
  note insti = retryTask_counts_and_quarantines [where task = inherited_task
      and s = inherited_state and opts = default_options and now = 50
      and ?s3.0 = inherited_start and env = linking_down and e = ?err
      and ?s4.0 = inherited_end,
      THEN conjunct2, THEN conjunct2, THEN mp, OF hypi]
  have d1: "retryTask default_options linking_down 50 inherited_task inherited_state
       = (Inr (FailedAgain NonNumeric), inherited_end)"
    using insti by (rule conjunct1)
  have d2: "getRetryCount ?v inherited_end = NonNumeric"
    using insti [THEN conjunct2, THEN conjunct1] .
  have d3: "permanentFailures inherited_end = permanentFailures inherited_state"
    using insti [THEN conjunct2, THEN conjunct2, THEN conjunct2, THEN conjunct1] .
  show ?thesis
    by (intro conjI) (fact count_2, fact max_3, fact a1, fact a2, fact a3, fact a4,
        fact count_0, fact b1, fact b2, fact b3, fact count_3, fact c1, fact c2,
        fact inherited_count, fact d1, fact d2, fact d3)
qed

text \<open>
  C3, as the specification states it, fails: with \<open>maxRetries = 3\<close> and a counter of 2, the pass
  in which the pipeline fails again (the linking stage) raises the counter to 3 and
  quarantines the item at once, without waiting for the threshold check of a next pass.
\<close>

theorem retryTask_quarantines_in_failing_pass:
  "getRetryCount (work_id failed_task) (retry_state 2) = Number 2
   \<and> maxRetries default_options = 3
   \<and> fst (retryTask default_options linking_down 50 failed_task (retry_state 2))
       = Inr (PermanentFailure (Some (AgentFailed ''linking'')))
   \<and> getRetryCount (work_id failed_task)
        (snd (retryTask default_options linking_down 50 failed_task (retry_state 2)))
       = Number 3
   \<and> work_id failed_task
       \<in> set (permanentFailures
                (snd (retryTask default_options linking_down 50 failed_task (retry_state 2))))
   \<and> map work_id (current_processing
        (snd (retryTask default_options linking_down 50 failed_task (retry_state 2)))) = []"
proof -
  let ?w = "work_id failed_task"
  let ?s = "retry_state 2"
  let ?s' = "markPermanentFailure ?w (retry_end linking_down 8000 2)"
  have ids: "map work_id (current_processing ?s) = [?w]" by code_simp
  note aft = retryTask_after_failure [OF failed_task_reset [OF reset_2 delay_2]
      failed_task_run [OF down_2]]
  have a: "getRetryCount ?w ?s' = Number 3"
    using aft(4) by (simp add: count_2 plus_one_def)
  have b: "?w \<in> set (permanentFailures ?s')" by (rule aft(5))
  have c: "map work_id (current_processing ?s') = []"
    using aft(6) ids by simp
  show ?thesis
    using count_2 max_3 a b c by (simp add: retry_down_2)
qed

lemma recovered_ledger:
  "map work_id (current_processing (retry_end all_up 2000 0)) = [''wq-1'']"
  by code_simp

lemma recovered_statuses:
  "map (\<lambda>p. map status (agent_pipeline p)) (current_processing (retry_end all_up 2000 0))
     = [[Completed, Completed, Completed, Completed]]"
  by code_simp

lemma recovered_log: "completed (retry_end all_up 2000 0) = []"
  by code_simp

lemma recovered_retries: "retries_r (retry_end all_up 2000 0) = [(''wq-1'', Number 1)]"
  by code_simp

lemma recovered_lastRetry: "lastRetry (retry_end all_up 2000 0) = [(''wq-1'', 50)]"
  by code_simp

lemma recovered_permanent: "permanentFailures (retry_end all_up 2000 0) = []"
  by code_simp

lemma cleanup_keeps_active:
  assumes "map work_id (current_processing s) = [w]" and "retries_r s = [(w, n)]"
  shows "retries_r (snd (cleanup s)) = retries_r s" and "lastRetry (snd (cleanup s)) = lastRetry s"
  using assms by (simp_all add: cleanup_def)

text \<open>
  C2 on the code. After a recovery retry in which all remaining stages succeed,
  \<open>retryTask\<close> returns recovered, but the record is still in the manifest (with every
  stage completed), the completion log has no new entry, and the item's entries in
  \<open>retries\<close> and \<open>lastRetry\<close> remain, also after \<open>cleanup\<close>, which spares the work ids
  that are still in the manifest.
\<close>

theorem retryTask_success_completes_nothing:
  "fst (retryTask default_options all_up 50 failed_task (retry_state 0)) = Inr Recovered
   \<and> map work_id (current_processing
        (snd (retryTask default_options all_up 50 failed_task (retry_state 0)))) = [''wq-1'']
   \<and> map (\<lambda>p. map status (agent_pipeline p)) (current_processing
        (snd (retryTask default_options all_up 50 failed_task (retry_state 0))))
       = [[Completed, Completed, Completed, Completed]]
   \<and> completed (snd (retryTask default_options all_up 50 failed_task (retry_state 0))) = []
   \<and> retries_r (snd (retryTask default_options all_up 50 failed_task (retry_state 0)))
       = [(''wq-1'', Number 1)]
   \<and> lastRetry (snd (retryTask default_options all_up 50 failed_task (retry_state 0)))
       = [(''wq-1'', 50)]
   \<and> retries_r (snd (cleanup
        (snd (retryTask default_options all_up 50 failed_task (retry_state 0)))))
       = [(''wq-1'', Number 1)]
   \<and> lastRetry (snd (cleanup
        (snd (retryTask default_options all_up 50 failed_task (retry_state 0)))))
       = [(''wq-1'', 50)]"
  using cleanup_keeps_active [OF recovered_ledger recovered_retries]
  by (simp add: retry_up_0 recovered_ledger recovered_statuses recovered_log
      recovered_retries recovered_lastRetry)

end
